theory Spec2Isabelle
  imports Main
begin

section \<open>Firebase ID token verification of tabular-api (implementations/main.go)\<close>

text \<open>
  The development follows \<^verbatim>\<open>implementations/main.go\<close>: the configuration record, the
  process-wide public key cache (\<^verbatim>\<open>getKey\<close>, \<^verbatim>\<open>refresh\<close>), the two token verifiers
  (\<^verbatim>\<open>verifyIDToken\<close>, \<^verbatim>\<open>verifyEmulatorToken\<close>), the JSON helpers and the closure that
  \<^verbatim>\<open>newMux\<close> registers for \<^verbatim>\<open>GET /api/me\<close>.

  What lies outside the repository is a parameter, collected in the record \<open>env\<close>:
  base64url and JSON decoding of token segments, the RSA signature check, the wall clock,
  the outcome of the HTTP request to Google's certificate endpoint, and PEM and X.509
  decoding. The control flow of the parser of \<^verbatim>\<open>github.com/golang-jwt/jwt/v4\<close> (v4.5.2, the
  version pinned by the repository) is written out, because the verifiers' behaviour
  depends on which checks \<^verbatim>\<open>ParseUnverified\<close> and \<^verbatim>\<open>ParseWithClaims\<close> perform.
  The trimming of header values by the HTTP/1.x reader of \<^verbatim>\<open>net/http\<close>, through which every
  request reaches the handler, is written out as well.

  Times are integers (nanoseconds since the Unix epoch). Mutable process state (the
  global \<^verbatim>\<open>keyCache\<close>) is passed explicitly. The state also counts clock readings and
  outbound requests and carries a log of the calls made, so that statements such as
  "no verifier is invoked" or "no network access occurs" can be written down. The
  \<^verbatim>\<open>slog\<close> calls are not modelled.
\<close>

subsection \<open>String helpers of the Go standard library\<close>

definition HasPrefix :: "string \<Rightarrow> string \<Rightarrow> bool" where
  "HasPrefix s p = (take (length p) s = p)"

definition TrimPrefix :: "string \<Rightarrow> string \<Rightarrow> string" where
  "TrimPrefix s p = (if HasPrefix s p then drop (length p) s else s)"

text \<open>\<^verbatim>\<open>strings.Split\<close> with a one-byte separator: the empty string gives one empty piece.\<close>

fun splitOn :: "char \<Rightarrow> string \<Rightarrow> string list" where
  "splitOn c [] = [[]]"
| "splitOn c (x # xs) =
     (if x = c then [] # splitOn c xs
      else (case splitOn c xs of
              [] \<Rightarrow> [[x]]
            | p # ps \<Rightarrow> (x # p) # ps))"

text \<open>
  \<^verbatim>\<open>strings.TrimSpace\<close> removes leading and trailing Unicode white space. Go strings are
  byte sequences read as UTF-8, so the white space code points are listed by their UTF-8
  encodings; a byte sequence that is not one of them is not white space.
\<close>

definition asciiSpaces :: "string list" where
  "asciiSpaces = [[CHR 0x09], [CHR 0x0A], [CHR 0x0B], [CHR 0x0C], [CHR 0x0D], [CHR 0x20]]"

definition unicodeSpaces :: "string list" where
  "unicodeSpaces =
     [[CHR 0xC2, CHR 0x85], [CHR 0xC2, CHR 0xA0], [CHR 0xE1, CHR 0x9A, CHR 0x80],
      [CHR 0xE2, CHR 0x80, CHR 0x80], [CHR 0xE2, CHR 0x80, CHR 0x81],
      [CHR 0xE2, CHR 0x80, CHR 0x82], [CHR 0xE2, CHR 0x80, CHR 0x83],
      [CHR 0xE2, CHR 0x80, CHR 0x84], [CHR 0xE2, CHR 0x80, CHR 0x85],
      [CHR 0xE2, CHR 0x80, CHR 0x86], [CHR 0xE2, CHR 0x80, CHR 0x87],
      [CHR 0xE2, CHR 0x80, CHR 0x88], [CHR 0xE2, CHR 0x80, CHR 0x89],
      [CHR 0xE2, CHR 0x80, CHR 0x8A], [CHR 0xE2, CHR 0x80, CHR 0xA8],
      [CHR 0xE2, CHR 0x80, CHR 0xA9], [CHR 0xE2, CHR 0x80, CHR 0xAF],
      [CHR 0xE2, CHR 0x81, CHR 0x9F], [CHR 0xE3, CHR 0x80, CHR 0x80]]"

definition spaces :: "string list" where
  "spaces = asciiSpaces @ unicodeSpaces"

fun stripOne :: "string list \<Rightarrow> string \<Rightarrow> string option" where
  "stripOne [] s = None"
| "stripOne (w # ws) s = (if HasPrefix s w then Some (drop (length w) s) else stripOne ws s)"

function TrimLeftSpace :: "string list \<Rightarrow> string \<Rightarrow> string" where
  "TrimLeftSpace ws s =
     (case stripOne ws s of
        None \<Rightarrow> s
      | Some s' \<Rightarrow> (if length s' < length s then TrimLeftSpace ws s' else s))"
  by pat_completeness auto
termination
  by (relation "measure (\<lambda>(ws, s). length s)") auto

definition TrimSpace :: "string \<Rightarrow> string" where
  "TrimSpace s =
     rev (TrimLeftSpace (map rev spaces) (rev (TrimLeftSpace spaces s)))"

text \<open>
  \<^verbatim>\<open>strconv.Atoi\<close>: an optional sign, then one or more decimal digits, and a value that fits
  a 64-bit \<^verbatim>\<open>int\<close>; anything else is an error (\<open>None\<close>).
\<close>

definition digitVal :: "char \<Rightarrow> nat option" where
  "digitVal c =
     (let n = of_char c :: nat in if 48 \<le> n \<and> n \<le> 57 then Some (n - 48) else None)"

fun digitsVal :: "string \<Rightarrow> int \<Rightarrow> int option" where
  "digitsVal [] acc = Some acc"
| "digitsVal (c # cs) acc =
     (case digitVal c of
        None \<Rightarrow> None
      | Some d \<Rightarrow> digitsVal cs (acc * 10 + int d))"

definition Atoi :: "string \<Rightarrow> int option" where
  "Atoi s =
     (let neg = (s \<noteq> [] \<and> hd s = CHR ''-'');
          ds = (if s \<noteq> [] \<and> (hd s = CHR ''-'' \<or> hd s = CHR ''+'') then tl s else s)
      in if ds = [] then None
         else (case digitsVal ds 0 of
                 None \<Rightarrow> None
               | Some n \<Rightarrow>
                   (let v = (if neg then - n else n)
                    in if - (2 ^ 63) \<le> v \<and> v < 2 ^ 63 then Some v else None)))"

subsection \<open>Configuration\<close>

record firebaseConfig =
  ProjectID :: string
  APIKey :: string
  AuthDomain :: string
  AuthEmulatorHost :: string

subsection \<open>Data of the JWT library and of the verifier\<close>

type_synonym time = int

record rsa_PublicKey =
  N :: int
  E :: int

datatype public_key = RSAKey rsa_PublicKey | NonRSAKey

text \<open>
  A header value after \<^verbatim>\<open>json.Unmarshal\<close> into \<^verbatim>\<open>map[string]interface{}\<close>. The code only
  ever applies the type assertion \<^verbatim>\<open>.(string)\<close> to such a value.
\<close>

datatype hval = HString string | HOther

text \<open>
  The payload members that \<^verbatim>\<open>firebaseClaims\<close> reads, as they stand in the token: \<open>None\<close> is
  a member that is absent (or \<^verbatim>\<open>null\<close>). \<^verbatim>\<open>aud\<close> is a string or an array of strings, both
  decoded by \<^verbatim>\<open>jwt.ClaimStrings\<close> into a list.
\<close>

record wire_claims =
  claim_iss :: "string option"
  claim_sub :: "string option"
  claim_aud :: "string list option"
  claim_exp :: "time option"
  claim_nbf :: "time option"
  claim_iat :: "time option"
  claim_jti :: "string option"
  claim_email :: "string option"
  claim_name :: "string option"
  claim_picture :: "string option"

record RegisteredClaims =
  Issuer :: string
  Subject :: string
  Audience :: "string list"
  ExpiresAt :: "time option"
  NotBefore :: "time option"
  IssuedAt :: "time option"
  ID :: string

record firebaseClaims = RegisteredClaims +
  Email :: string
  Name :: string
  Picture :: string

record userClaims =
  UID :: string
  uEmail :: string
  uName :: string
  uPicture :: string

text \<open>
  Decoding into the Go struct: a string field is not a pointer, so an absent member leaves
  the zero value \<^verbatim>\<open>""\<close>; the three dates are pointers and stay \<^verbatim>\<open>nil\<close>.
\<close>

definition orEmpty :: "string option \<Rightarrow> string" where
  "orEmpty v = (case v of None \<Rightarrow> [] | Some s \<Rightarrow> s)"

definition bindClaims :: "wire_claims \<Rightarrow> firebaseClaims" where
  "bindClaims w =
     \<lparr>Issuer = orEmpty (claim_iss w), Subject = orEmpty (claim_sub w),
      Audience = (case claim_aud w of None \<Rightarrow> [] | Some a \<Rightarrow> a),
      ExpiresAt = claim_exp w, NotBefore = claim_nbf w, IssuedAt = claim_iat w,
      ID = orEmpty (claim_jti w),
      Email = orEmpty (claim_email w), Name = orEmpty (claim_name w),
      Picture = orEmpty (claim_picture w)\<rparr>"

datatype validation_flag =
  Malformed | Unverifiable | SignatureInvalid | Expired | IssuedAtFuture | NotValidYet

type_synonym validation_error = "validation_flag list"

record Token =
  Raw :: string
  Method :: string
  Header :: "string \<rightharpoonup> hval"
  Claims :: firebaseClaims
  Signature :: string
  Valid :: bool

record Parser =
  ValidMethods :: "string list option"
  SkipClaimsValidation :: bool

datatype http_result =
  GetFailed
| Response (StatusCode: int) (CacheControl: string) (Body: "string option")

subsection \<open>The environment\<close>

text \<open>
  \<^item> \<open>DecodeHeader\<close>: \<^verbatim>\<open>DecodeSegment\<close> and \<^verbatim>\<open>json.Unmarshal\<close> of the first segment;
  \<^item> \<open>DecodeClaims\<close>: the same for the second segment (\<open>None\<close>: not base64url, not JSON, or
    a member of the wrong type);
  \<^item> \<open>MethodVerify alg signingString signature key\<close>: whether \<^verbatim>\<open>Method.Verify\<close> of the
    signing method \<open>alg\<close> returns \<^verbatim>\<open>nil\<close>;
  \<^item> \<open>Now k\<close>: the \<open>k\<close>-th reading of \<^verbatim>\<open>time.Now()\<close> in this process;
  \<^item> \<open>HttpGet k\<close>: the outcome of the \<open>k\<close>-th \<^verbatim>\<open>http.Get(googleCertsURL)\<close>; a body \<open>None\<close> is
    a failed \<^verbatim>\<open>io.ReadAll\<close>;
  \<^item> \<open>UnmarshalCertMap\<close>: \<^verbatim>\<open>json.Unmarshal\<close> into \<^verbatim>\<open>map[string]string\<close>, as the list of
    entries in the order the \<^verbatim>\<open>range\<close> loop visits them;
  \<^item> \<open>PemDecode\<close>: the bytes of the first PEM block; \<open>ParseCertificate\<close>: the public key of
    the parsed certificate.
\<close>

record env =
  DecodeHeader :: "string \<Rightarrow> (string \<rightharpoonup> hval) option"
  DecodeClaims :: "string \<Rightarrow> wire_claims option"
  MethodVerify :: "string \<Rightarrow> string \<Rightarrow> string \<Rightarrow> rsa_PublicKey \<Rightarrow> bool"
  Now :: "nat \<Rightarrow> time"
  HttpGet :: "nat \<Rightarrow> http_result"
  UnmarshalCertMap :: "string \<Rightarrow> (string \<times> string) list option"
  PemDecode :: "string \<Rightarrow> string option"
  ParseCertificate :: "string \<Rightarrow> public_key option"

subsection \<open>Process state\<close>

datatype event =
  CallVerifyIDToken string
| CallVerifyEmulatorToken string
| CallGetKey string
| CallRefresh
| SignatureCheck string

record publicKeyCache =
  keys :: "string \<rightharpoonup> rsa_PublicKey"
  expiry :: time

record state =
  keyCache :: publicKeyCache
  clockReads :: nat
  fetches :: nat
  calls :: "event list"

definition record_call :: "event \<Rightarrow> state \<Rightarrow> state" where
  "record_call ev s = s\<lparr>calls := calls s @ [ev]\<rparr>"

definition calls_since :: "state \<Rightarrow> state \<Rightarrow> event list" where
  "calls_since s s' = drop (length (calls s)) (calls s')"

definition time_Now :: "env \<Rightarrow> state \<Rightarrow> time \<times> state" where
  "time_Now En s = (Now En (clockReads s), s\<lparr>clockReads := Suc (clockReads s)\<rparr>)"

definition http_Get :: "env \<Rightarrow> state \<Rightarrow> http_result \<times> state" where
  "http_Get En s = (HttpGet En (fetches s), s\<lparr>fetches := Suc (fetches s)\<rparr>)"

subsection \<open>Public key cache\<close>

text \<open>
  The zero value of \<^verbatim>\<open>time.Time\<close> (January 1, year 1, UTC): the expiry of the cache before
  its first successful refresh.
\<close>

definition zeroTime :: time where
  "zeroTime = - 62135596800 * 1000000000"

definition emptyCache :: publicKeyCache where
  "emptyCache = \<lparr>keys = Map.empty, expiry = zeroTime\<rparr>"

datatype fetch_error =
  FetchingCerts
| ReadingResponse
| BadStatus int
| ParsingJSON
| DecodePEM string
| ParsingCertificate string
| NotRSA string

text \<open>The loop of \<^verbatim>\<open>refresh\<close> over the certificate map; it returns at the first bad entry.\<close>

fun certKeys ::
  "env \<Rightarrow> (string \<times> string) list \<Rightarrow> (string \<rightharpoonup> rsa_PublicKey)
     \<Rightarrow> fetch_error + (string \<rightharpoonup> rsa_PublicKey)" where
  "certKeys En [] ks = Inr ks"
| "certKeys En ((kid, certPEM) # rest) ks =
     (case PemDecode En certPEM of
        None \<Rightarrow> Inl (DecodePEM kid)
      | Some block \<Rightarrow>
          (case ParseCertificate En block of
             None \<Rightarrow> Inl (ParsingCertificate kid)
           | Some NonRSAKey \<Rightarrow> Inl (NotRSA kid)
           | Some (RSAKey rsaKey) \<Rightarrow> certKeys En rest (ks(kid \<mapsto> rsaKey))))"

text \<open>The loop over the directives of \<^verbatim>\<open>Cache-Control\<close>; the last valid \<^verbatim>\<open>max-age\<close> wins.\<close>

fun maxAgeLoop :: "string list \<Rightarrow> int \<Rightarrow> int" where
  "maxAgeLoop [] maxAge = maxAge"
| "maxAgeLoop (directive # rest) maxAge =
     (let d = TrimSpace directive
      in if HasPrefix d ''max-age=''
         then (case Atoi (TrimPrefix d ''max-age='') of
                 Some v \<Rightarrow> maxAgeLoop rest v
               | None \<Rightarrow> maxAgeLoop rest maxAge)
         else maxAgeLoop rest maxAge)"

definition maxAgeOf :: "string \<Rightarrow> int" where
  "maxAgeOf cc = (if cc \<noteq> [] then maxAgeLoop (splitOn CHR '','' cc) 3600 else 3600)"

text \<open>
  \<^verbatim>\<open>time.Duration(maxAge) * time.Second\<close> is a multiplication of 64-bit signed integers and
  wraps around.
\<close>

definition wrap64 :: "int \<Rightarrow> int" where
  "wrap64 x = (x + 2 ^ 63) mod 2 ^ 64 - 2 ^ 63"

definition secondsDuration :: "int \<Rightarrow> int" where
  "secondsDuration maxAge = wrap64 (maxAge * 1000000000)"

text \<open>
  \<^verbatim>\<open>refresh\<close> in two parts: the check of the expiry after the write lock is taken, and the
  rest of the function (\<open>fetchAndStore\<close>: the request, the decoding of the response and
  the update of the cache). The result \<open>None\<close> is Go's \<^verbatim>\<open>nil\<close> error.
\<close>

definition fetchAndStore :: "env \<Rightarrow> state \<Rightarrow> fetch_error option \<times> state" where
  "fetchAndStore En s1 =
     (let (resp, s2) = http_Get En s1
      in case resp of
           GetFailed \<Rightarrow> (Some FetchingCerts, s2)
         | Response status cc body \<Rightarrow>
             (case body of
                None \<Rightarrow> (Some ReadingResponse, s2)
              | Some b \<Rightarrow>
                  if status \<noteq> 200 then (Some (BadStatus status), s2)
                  else
                    (case UnmarshalCertMap En b of
                       None \<Rightarrow> (Some ParsingJSON, s2)
                     | Some certMap \<Rightarrow>
                         (case certKeys En certMap Map.empty of
                            Inl e \<Rightarrow> (Some e, s2)
                          | Inr ks \<Rightarrow>
                              (let maxAge = maxAgeOf cc;
                                   (now2, s3) = time_Now En s2
                               in (None,
                                   s3\<lparr>keyCache :=
                                        \<lparr>keys = ks,
                                         expiry = now2 + secondsDuration maxAge\<rparr>\<rparr>))))))"

definition refresh :: "env \<Rightarrow> state \<Rightarrow> fetch_error option \<times> state" where
  "refresh En s0 =
     (let s = record_call CallRefresh s0;
          (now, s1) = time_Now En s
      in if now < expiry (keyCache s1) then (None, s1)
         else fetchAndStore En s1)"

datatype key_error =
  KeyNotFound string
| RefreshFailed fetch_error
| KeyNotFoundAfterRefresh string

definition getKey :: "env \<Rightarrow> string \<Rightarrow> state \<Rightarrow> (key_error + rsa_PublicKey) \<times> state" where
  "getKey En kid s0 =
     (let s = record_call (CallGetKey kid) s0;
          (now, s1) = time_Now En s
      in if now < expiry (keyCache s1)
         then (case keys (keyCache s1) kid of
                 Some key \<Rightarrow> (Inr key, s1)
               | None \<Rightarrow> (Inl (KeyNotFound kid), s1))
         else
           (case refresh En s1 of
              (Some err, s2) \<Rightarrow> (Inl (RefreshFailed err), s2)
            | (None, s2) \<Rightarrow>
                (case keys (keyCache s2) kid of
                   Some key \<Rightarrow> (Inr key, s2)
                 | None \<Rightarrow> (Inl (KeyNotFoundAfterRefresh kid), s2))))"

subsection \<open>The parser of golang-jwt/jwt v4\<close>

text \<open>The signing methods that the library registers; \<^verbatim>\<open>GetSigningMethod\<close> looks a name up.\<close>

definition signingMethods :: "string list" where
  "signingMethods =
     [''HS256'', ''HS384'', ''HS512'', ''RS256'', ''RS384'', ''RS512'',
      ''PS256'', ''PS384'', ''PS512'', ''ES256'', ''ES384'', ''ES512'',
      ''EdDSA'', ''none'']"

definition GetSigningMethod :: "string \<Rightarrow> string option" where
  "GetSigningMethod alg = (if alg \<in> set signingMethods then Some alg else None)"

definition splitToken :: "string \<Rightarrow> (string \<times> string \<times> string) option" where
  "splitToken tokenString =
     (case splitOn CHR ''.'' tokenString of
        [p0, p1, p2] \<Rightarrow> Some (p0, p1, p2)
      | _ \<Rightarrow> None)"

text \<open>
  \<^verbatim>\<open>Parser.ParseUnverified\<close>: three segments, header, claims, then the lookup of the signing
  method named by the header. It consults neither \<^verbatim>\<open>ValidMethods\<close> nor
  \<^verbatim>\<open>SkipClaimsValidation\<close> of its parser, and it checks no signature.
\<close>

definition ParseUnverified ::
  "Parser \<Rightarrow> env \<Rightarrow> string \<Rightarrow> validation_error + (Token \<times> string \<times> string \<times> string)" where
  "ParseUnverified p En tokenString =
     (case splitToken tokenString of
        None \<Rightarrow> Inl [Malformed]
      | Some (p0, p1, p2) \<Rightarrow>
          (case DecodeHeader En p0 of
             None \<Rightarrow> Inl [Malformed]
           | Some h \<Rightarrow>
               (case DecodeClaims En p1 of
                  None \<Rightarrow> Inl [Malformed]
                | Some w \<Rightarrow>
                    (case h ''alg'' of
                       Some (HString alg) \<Rightarrow>
                         (case GetSigningMethod alg of
                            None \<Rightarrow> Inl [Unverifiable]
                          | Some m \<Rightarrow>
                              Inr (\<lparr>Raw = tokenString, Method = m, Header = h,
                                    Claims = bindClaims w, Signature = [], Valid = False\<rparr>,
                                   p0, p1, p2))
                     | _ \<Rightarrow> Inl [Unverifiable]))))"

text \<open>\<^verbatim>\<open>RegisteredClaims.Valid\<close>: each of the three dates is checked only when present.\<close>

definition claimsValid :: "time \<Rightarrow> firebaseClaims \<Rightarrow> validation_error" where
  "claimsValid now c =
     (case ExpiresAt c of None \<Rightarrow> [] | Some e \<Rightarrow> if now < e then [] else [Expired]) @
     (case IssuedAt c of None \<Rightarrow> [] | Some i \<Rightarrow> if i \<le> now then [] else [IssuedAtFuture]) @
     (case NotBefore c of None \<Rightarrow> [] | Some n \<Rightarrow> if n \<le> now then [] else [NotValidYet])"

text \<open>
  \<^verbatim>\<open>Parser.ParseWithClaims\<close> (v4.5): the unverified parse, the check of the signing method
  against \<^verbatim>\<open>ValidMethods\<close>, the key function, the signature, then the claims.
\<close>

definition ParseWithClaims ::
  "Parser \<Rightarrow> env \<Rightarrow> string \<Rightarrow> (Token \<Rightarrow> rsa_PublicKey) \<Rightarrow> state
     \<Rightarrow> (validation_error + Token) \<times> state" where
  "ParseWithClaims p En tokenString keyFunc s =
     (case ParseUnverified p En tokenString of
        Inl e \<Rightarrow> (Inl e, s)
      | Inr (token, p0, p1, p2) \<Rightarrow>
          if (case ValidMethods p of None \<Rightarrow> False | Some ms \<Rightarrow> Method token \<notin> set ms)
          then (Inl [SignatureInvalid], s)
          else
            (let key = keyFunc token;
                 token1 = token\<lparr>Signature := p2\<rparr>;
                 s1 = record_call (SignatureCheck (Method token)) s
             in if \<not> MethodVerify En (Method token) (p0 @ ''.'' @ p1) p2 key
                then (Inl [SignatureInvalid], s1)
                else if SkipClaimsValidation p then (Inr (token1\<lparr>Valid := True\<rparr>), s1)
                else
                  (let (now, s2) = time_Now En s1;
                       vErr = claimsValid now (Claims token1)
                   in if vErr \<noteq> [] then (Inl vErr, s2)
                      else (Inr (token1\<lparr>Valid := True\<rparr>), s2))))"

definition NewParser :: Parser where
  "NewParser = \<lparr>ValidMethods = None, SkipClaimsValidation = False\<rparr>"

subsection \<open>Token verification\<close>

datatype verify_error =
  ParsingEmulatorToken validation_error
| EmulatorSubjectEmpty
| ParsingToken validation_error
| UnexpectedSigningAlgorithm string
| MissingKid
| KeyFailure key_error
| VerificationFailed validation_error
| InvalidTokenClaims
| SubjectEmpty
| InvalidIssuer string string
| InvalidAudience "string list" string

definition toUser :: "firebaseClaims \<Rightarrow> userClaims" where
  "toUser claims =
     \<lparr>UID = Subject claims, uEmail = Email claims, uName = Name claims,
      uPicture = Picture claims\<rparr>"

text \<open>
  \<^verbatim>\<open>verifyEmulatorToken\<close>. The type assertion on \<^verbatim>\<open>token.Claims\<close> cannot fail, since the
  claims object passed in is a \<^verbatim>\<open>*firebaseClaims\<close>; that branch has no counterpart here.
\<close>

definition verifyEmulatorToken ::
  "env \<Rightarrow> string \<Rightarrow> string \<Rightarrow> state \<Rightarrow> (verify_error + userClaims) \<times> state" where
  "verifyEmulatorToken En tokenString projectID s0 =
     (let s = record_call (CallVerifyEmulatorToken tokenString) s0;
          parser = \<lparr>ValidMethods = Some [''none'', ''RS256''], SkipClaimsValidation = True\<rparr>
      in case ParseUnverified parser En tokenString of
           Inl err \<Rightarrow> (Inl (ParsingEmulatorToken err), s)
         | Inr (token, parts) \<Rightarrow>
             (let claims = Claims token
              in if Subject claims = [] then (Inl EmulatorSubjectEmpty, s)
                 else (Inr (toUser claims), s)))"

text \<open>
  \<^verbatim>\<open>verifyIDToken\<close>, with its loop over the audience values first. As above, the type
  assertion on the claims of the verified token cannot fail, so the test
  \<^verbatim>\<open>!ok || !verifiedToken.Valid\<close> is the test of \<^verbatim>\<open>Valid\<close> alone. The key function passed to
  the library returns the key found in the cache and never fails.
\<close>

fun foundAud :: "string list \<Rightarrow> string \<Rightarrow> bool" where
  "foundAud [] projectID = False"
| "foundAud (aud # rest) projectID = (if aud = projectID then True else foundAud rest projectID)"

definition verifyIDToken ::
  "env \<Rightarrow> string \<Rightarrow> string \<Rightarrow> state \<Rightarrow> (verify_error + userClaims) \<times> state" where
  "verifyIDToken En tokenString projectID s0 =
     (let s = record_call (CallVerifyIDToken tokenString) s0
      in case ParseUnverified NewParser En tokenString of
           Inl err \<Rightarrow> (Inl (ParsingToken err), s)
         | Inr (token, parts) \<Rightarrow>
             if Method token \<noteq> ''RS256''
             then (Inl (UnexpectedSigningAlgorithm (Method token)), s)
             else
               (case Header token ''kid'' of
                  Some (HString kid) \<Rightarrow>
                    if kid = [] then (Inl MissingKid, s)
                    else
                      (case getKey En kid s of
                         (Inl err, s1) \<Rightarrow> (Inl (KeyFailure err), s1)
                       | (Inr pubKey, s1) \<Rightarrow>
                           (let expectedIssuer = ''https://securetoken.google.com/'' @ projectID
                            in case ParseWithClaims
                                      \<lparr>ValidMethods = Some [''RS256''],
                                       SkipClaimsValidation = False\<rparr>
                                      En tokenString (\<lambda>t. pubKey) s1 of
                                 (Inl err, s2) \<Rightarrow> (Inl (VerificationFailed err), s2)
                               | (Inr verifiedToken, s2) \<Rightarrow>
                                   (let claims = Claims verifiedToken
                                    in if \<not> Valid verifiedToken
                                       then (Inl InvalidTokenClaims, s2)
                                       else if Subject claims = []
                                       then (Inl SubjectEmpty, s2)
                                       else if Issuer claims \<noteq> expectedIssuer
                                       then (Inl (InvalidIssuer (Issuer claims) expectedIssuer), s2)
                                       else if \<not> foundAud (Audience claims) projectID
                                       then (Inl (InvalidAudience (Audience claims) projectID), s2)
                                       else (Inr (toUser claims), s2))))
                | _ \<Rightarrow> (Inl MissingKid, s)))"

subsection \<open>JSON helpers and the handler of GET /api/me\<close>

text \<open>
  The values that \<^verbatim>\<open>writeJSON\<close> encodes are two structs of strings; a response body is kept
  as the JSON value that \<^verbatim>\<open>json.NewEncoder(w).Encode\<close> serialises.
\<close>

datatype json = JString string | JObject "(string \<times> json) list"

record errorDetail =
  Code :: string
  Message :: string

record errorEnvelope =
  Error :: errorDetail

definition json_userClaims :: "userClaims \<Rightarrow> json" where
  "json_userClaims u =
     JObject [(''uid'', JString (UID u)), (''email'', JString (uEmail u)),
              (''name'', JString (uName u)), (''picture'', JString (uPicture u))]"

definition json_errorEnvelope :: "errorEnvelope \<Rightarrow> json" where
  "json_errorEnvelope e =
     JObject [(''error'',
               JObject [(''code'', JString (Code (Error e))),
                        (''message'', JString (Message (Error e)))])]"

record response =
  Status :: int
  ContentType :: string
  ResponseBody :: json

definition writeJSON :: "int \<Rightarrow> json \<Rightarrow> response" where
  "writeJSON status v =
     \<lparr>Status = status, ContentType = ''application/json'', ResponseBody = v\<rparr>"

definition writeError :: "int \<Rightarrow> string \<Rightarrow> string \<Rightarrow> response" where
  "writeError status code message =
     writeJSON status (json_errorEnvelope \<lparr>Error = \<lparr>Code = code, Message = message\<rparr>\<rparr>)"

text \<open>
  A request carries its header fields under their canonical names; \<^verbatim>\<open>Header.Get\<close> gives
  the first value of a field, or \<^verbatim>\<open>""\<close>.
\<close>

record request =
  HeaderFields :: "string \<rightharpoonup> string list"

definition Header_Get :: "(string \<rightharpoonup> string list) \<Rightarrow> string \<Rightarrow> string" where
  "Header_Get h key = (case h key of None \<Rightarrow> [] | Some [] \<Rightarrow> [] | Some (v # vs) \<Rightarrow> v)"

definition unauthenticated :: response where
  "unauthenticated =
     writeError 401 ''UNAUTHENTICATED'' ''Missing or invalid authentication token''"

text \<open>The closure that \<^verbatim>\<open>newMux cfg\<close> registers for the pattern \<^verbatim>\<open>GET /api/me\<close>.\<close>

definition apiMeHandler :: "firebaseConfig \<Rightarrow> env \<Rightarrow> request \<Rightarrow> state \<Rightarrow> response \<times> state" where
  "apiMeHandler cfg En r s =
     (let authHeader = Header_Get (HeaderFields r) ''Authorization''
      in if authHeader = [] \<or> \<not> HasPrefix authHeader ''Bearer '' then (unauthenticated, s)
         else
           (let tokenString = TrimPrefix authHeader ''Bearer '';
                (res, s') =
                  (if AuthEmulatorHost cfg \<noteq> []
                   then verifyEmulatorToken En tokenString (ProjectID cfg) s
                   else verifyIDToken En tokenString (ProjectID cfg) s)
            in case res of
                 Inl err \<Rightarrow> (unauthenticated, s')
               | Inr user \<Rightarrow> (writeJSON 200 (json_userClaims user), s')))"

subsection \<open>Concurrent callers of getKey\<close>

text \<open>
  Several goroutines call \<^verbatim>\<open>getKey\<close> on the one cache. Each caller is at one of the
  points of \<^verbatim>\<open>getKey\<close> and \<^verbatim>\<open>refresh\<close> below; the \<^verbatim>\<open>sync.RWMutex\<close> is the number of
  holders of the read lock and a flag for the write lock.
  \<^item> \<open>Start\<close>: before \<^verbatim>\<open>c.mu.RLock()\<close>;
  \<^item> \<open>Reading\<close>: holding the read lock, before the check of the expiry;
  \<^item> \<open>WantRefresh\<close>: the cache was seen expired and the read lock released; before
    \<^verbatim>\<open>c.mu.Lock()\<close> in \<^verbatim>\<open>refresh\<close>;
  \<^item> \<open>Locked\<close>: holding the write lock, before the second check of the expiry;
  \<^item> \<open>Fetching\<close>: holding the write lock, the cache seen expired again; before
    \<^verbatim>\<open>http.Get\<close>;
  \<^item> \<open>Refreshed\<close>: \<^verbatim>\<open>refresh\<close> returned \<^verbatim>\<open>nil\<close> and released the write lock; before the
    second \<^verbatim>\<open>c.mu.RLock()\<close>;
  \<^item> \<open>ReadingAgain\<close>: holding the read lock for the lookup after the refresh;
  \<^item> \<open>Done r\<close>: \<^verbatim>\<open>getKey\<close> returned \<open>r\<close>.

  \<open>step En i sys\<close> lets caller \<open>i\<close> take its next step; it is \<open>None\<close> when the caller
  has returned or waits for a lock. A schedule is the list of the callers that move, in
  order. A lock is taken only when free (a read lock when no writer holds the lock, the
  write lock when nobody holds it); the preference that Go gives to a waiting writer
  only removes schedules. The count of readers is decremented only by a caller that
  holds the read lock; the invariant \<open>lockInv\<close> below shows that the count is the number
  of such callers, so the subtraction never truncates.
\<close>

datatype pc =
  Start
| Reading
| WantRefresh
| Locked
| Fetching
| Refreshed
| ReadingAgain
| Done "key_error + rsa_PublicKey"

record thread =
  tpc :: pc
  tkid :: string

record system =
  shared :: state
  readers :: nat
  writer :: bool
  threads :: "thread list"

definition setThread :: "nat \<Rightarrow> pc \<Rightarrow> system \<Rightarrow> system" where
  "setThread i p sys = sys\<lparr>threads := (threads sys)[i := (threads sys ! i)\<lparr>tpc := p\<rparr>]\<rparr>"

definition lookupKey :: "state \<Rightarrow> string \<Rightarrow> key_error \<Rightarrow> key_error + rsa_PublicKey" where
  "lookupKey s kid err = (case keys (keyCache s) kid of Some key \<Rightarrow> Inr key | None \<Rightarrow> Inl err)"

definition step :: "env \<Rightarrow> nat \<Rightarrow> system \<Rightarrow> system option" where
  "step En i sys =
     (if length (threads sys) \<le> i then None
      else
        (let kid = tkid (threads sys ! i); s = shared sys
         in case tpc (threads sys ! i) of
              Start \<Rightarrow>
                if writer sys then None
                else Some (setThread i Reading
                       (sys\<lparr>shared := record_call (CallGetKey kid) s,
                            readers := Suc (readers sys)\<rparr>))
            | Reading \<Rightarrow>
                (let (now, s1) = time_Now En s
                 in Some (setThread i
                       (if now < expiry (keyCache s1)
                        then Done (lookupKey s1 kid (KeyNotFound kid))
                        else WantRefresh)
                       (sys\<lparr>shared := s1, readers := readers sys - 1\<rparr>)))
            | WantRefresh \<Rightarrow>
                if writer sys \<or> readers sys \<noteq> 0 then None
                else Some (setThread i Locked
                       (sys\<lparr>shared := record_call CallRefresh s, writer := True\<rparr>))
            | Locked \<Rightarrow>
                (let (now, s1) = time_Now En s
                 in if now < expiry (keyCache s1)
                    then Some (setThread i Refreshed (sys\<lparr>shared := s1, writer := False\<rparr>))
                    else Some (setThread i Fetching (sys\<lparr>shared := s1\<rparr>)))
            | Fetching \<Rightarrow>
                (case fetchAndStore En s of
                   (Some err, s2) \<Rightarrow>
                     Some (setThread i (Done (Inl (RefreshFailed err)))
                       (sys\<lparr>shared := s2, writer := False\<rparr>))
                 | (None, s2) \<Rightarrow>
                     Some (setThread i Refreshed (sys\<lparr>shared := s2, writer := False\<rparr>)))
            | Refreshed \<Rightarrow>
                if writer sys then None
                else Some (setThread i ReadingAgain (sys\<lparr>readers := Suc (readers sys)\<rparr>))
            | ReadingAgain \<Rightarrow>
                Some (setThread i (Done (lookupKey s kid (KeyNotFoundAfterRefresh kid)))
                  (sys\<lparr>readers := readers sys - 1\<rparr>))
            | Done r \<Rightarrow> None))"

fun run :: "env \<Rightarrow> nat list \<Rightarrow> system \<Rightarrow> system option" where
  "run En [] sys = Some sys"
| "run En (i # sched) sys =
     (case step En i sys of None \<Rightarrow> None | Some sys' \<Rightarrow> run En sched sys')"

definition callers :: "state \<Rightarrow> string list \<Rightarrow> system" where
  "callers s kids =
     \<lparr>shared = s, readers = 0, writer = False,
      threads = map (\<lambda>kid. \<lparr>tpc = Start, tkid = kid\<rparr>) kids\<rparr>"

definition inRefresh :: "thread \<Rightarrow> bool" where
  "inRefresh t = (tpc t = Locked \<or> tpc t = Fetching)"

definition isDone :: "thread \<Rightarrow> bool" where
  "isDone t = (case tpc t of Done r \<Rightarrow> True | _ \<Rightarrow> False)"

definition holdsRead :: "thread \<Rightarrow> bool" where
  "holdsRead t = (tpc t = Reading \<or> tpc t = ReadingAgain)"

definition locksFree :: "system \<Rightarrow> bool" where
  "locksFree sys = (readers sys = 0 \<and> \<not> writer sys)"

definition outcome :: "system \<Rightarrow> nat \<times> pc list" where
  "outcome sys = (fetches (shared sys), map tpc (threads sys))"

subsection \<open>Notions used in the statements\<close>

text \<open>
  A certificate entry that the loop of \<^verbatim>\<open>refresh\<close> accepts, and the failing outcomes of a
  fetch: no response, a status other than 200, an unreadable body, a body that is not a
  JSON map of strings, or an entry that is not the PEM encoding of a certificate with an
  RSA key.
\<close>

definition goodCert :: "env \<Rightarrow> string \<Rightarrow> bool" where
  "goodCert En certPEM =
     (case PemDecode En certPEM of
        None \<Rightarrow> False
      | Some block \<Rightarrow>
          (case ParseCertificate En block of
             Some (RSAKey k) \<Rightarrow> True
           | _ \<Rightarrow> False))"

definition failingFetch :: "env \<Rightarrow> http_result \<Rightarrow> bool" where
  "failingFetch En resp =
     (case resp of
        GetFailed \<Rightarrow> True
      | Response status cc body \<Rightarrow>
          status \<noteq> 200 \<or>
          (case body of
             None \<Rightarrow> True
           | Some b \<Rightarrow>
               (case UnmarshalCertMap En b of
                  None \<Rightarrow> True
                | Some certMap \<Rightarrow> \<exists>entry \<in> set certMap. \<not> goodCert En (snd entry))))"

text \<open>The calls of a verifier among the logged calls.\<close>

definition isVerifierCall :: "event \<Rightarrow> bool" where
  "isVerifierCall ev =
     (case ev of
        CallVerifyIDToken t \<Rightarrow> True
      | CallVerifyEmulatorToken t \<Rightarrow> True
      | _ \<Rightarrow> False)"

definition verifierCalls :: "event list \<Rightarrow> event list" where
  "verifierCalls evs = filter isVerifierCall evs"

text \<open>
  The token that the handler extracts from a request: \<open>None\<close> when the
  \<^verbatim>\<open>Authorization\<close> field is missing or does not start with \<^verbatim>\<open>"Bearer "\<close>.
\<close>

definition bearerToken :: "request \<Rightarrow> string option" where
  "bearerToken r =
     (let authHeader = Header_Get (HeaderFields r) ''Authorization''
      in if authHeader = [] \<or> \<not> HasPrefix authHeader ''Bearer '' then None
         else Some (TrimPrefix authHeader ''Bearer ''))"





text \<open>
  The algorithm that the header of a token string declares: the string member \<^verbatim>\<open>alg\<close> of
  the decoded first segment.
\<close>

definition declaredAlg :: "env \<Rightarrow> string \<Rightarrow> string option" where
  "declaredAlg En tokenString =
     (case splitOn CHR ''.'' tokenString of
        [] \<Rightarrow> None
      | p0 # rest \<Rightarrow>
          (case DecodeHeader En p0 of
             None \<Rightarrow> None
           | Some h \<Rightarrow> (case h ''alg'' of Some (HString alg) \<Rightarrow> Some alg | _ \<Rightarrow> None)))"

text \<open>
  Invariants of the concurrent callers: the lock discipline, and the two phases of a race
  for an expired cache, before the first fetch and after a first fetch that succeeded
  and took reading \<open>j\<close> of the clock for the new expiry.
\<close>

definition critical :: "system \<Rightarrow> nat" where
  "critical sys = length (filter inRefresh (threads sys))"

definition lockInv :: "system \<Rightarrow> bool" where
  "lockInv sys =
     (critical sys = (if writer sys then 1 else 0) \<and>
      readers sys = length (filter holdsRead (threads sys)) \<and>
      (writer sys \<longrightarrow> readers sys = 0))"

definition early :: "thread \<Rightarrow> bool" where
  "early t =
     (case tpc t of
        Start \<Rightarrow> True | Reading \<Rightarrow> True | WantRefresh \<Rightarrow> True | Locked \<Rightarrow> True
      | Fetching \<Rightarrow> True | _ \<Rightarrow> False)"

definition notFetching :: "thread \<Rightarrow> bool" where
  "notFetching t = (tpc t \<noteq> Fetching)"

definition beforeFetch :: "nat \<Rightarrow> publicKeyCache \<Rightarrow> system \<Rightarrow> bool" where
  "beforeFetch f0 c0 sys =
     (fetches (shared sys) = f0 \<and> keyCache (shared sys) = c0 \<and> list_all early (threads sys))"

definition afterFetch ::
  "env \<Rightarrow> nat \<Rightarrow> (string \<rightharpoonup> rsa_PublicKey) \<Rightarrow> int \<Rightarrow> nat \<Rightarrow> system \<Rightarrow> bool" where
  "afterFetch En f0 ks d j sys =
     (fetches (shared sys) = Suc f0 \<and>
      keyCache (shared sys) = \<lparr>keys = ks, expiry = Now En j + d\<rparr> \<and>
      j < clockReads (shared sys) \<and>
      list_all notFetching (threads sys))"

text \<open>
  The readings of the clock are numbered in the order in which they are taken.
  \<open>firstFetchReading En sched sys\<close> is the number of readings taken when a caller of the
  schedule first issues \<^verbatim>\<open>http.Get\<close>, \<open>None\<close> when none does. A fetch that succeeds reads the
  clock once, for the new expiry (\<^verbatim>\<open>time.Now().Add(...)\<close>), and that reading has this
  number: the readings with a smaller number were taken before the first fetch, those
  with a greater one after it.
\<close>

fun firstFetchReading :: "env \<Rightarrow> nat list \<Rightarrow> system \<Rightarrow> nat option" where
  "firstFetchReading En [] sys = None"
| "firstFetchReading En (i # sched) sys =
     (if i < length (threads sys) \<and> tpc (threads sys ! i) = Fetching
      then Some (clockReads (shared sys))
      else (case step En i sys of
              None \<Rightarrow> None
            | Some sys' \<Rightarrow> firstFetchReading En sched sys'))"

subsection \<open>Concrete inputs\<close>

text \<open>
  Token segments, each the base64url encoding (without padding) of the JSON text given
  with it, and the value the segment decodes to.

  Headers: \<^verbatim>\<open>{"alg":"RS256","kid":"k1","typ":"JWT"}\<close>, \<^verbatim>\<open>{"alg":"none","typ":"JWT"}\<close>,
  \<^verbatim>\<open>{"alg":"HS256","typ":"JWT"}\<close> and \<^verbatim>\<open>{"alg":"FOO","typ":"JWT"}\<close>.
\<close>

definition rs256HeaderSeg :: string where
  "rs256HeaderSeg = ''eyJhbGciOiJSUzI1NiIsImtpZCI6ImsxIiwidHlwIjoiSldUIn0''"

definition rs256Header :: "string \<rightharpoonup> hval" where
  "rs256Header =
     [''alg'' \<mapsto> HString ''RS256'', ''kid'' \<mapsto> HString ''k1'', ''typ'' \<mapsto> HString ''JWT'']"

definition noneHeaderSeg :: string where
  "noneHeaderSeg = ''eyJhbGciOiJub25lIiwidHlwIjoiSldUIn0''"

definition noneHeader :: "string \<rightharpoonup> hval" where
  "noneHeader = [''alg'' \<mapsto> HString ''none'', ''typ'' \<mapsto> HString ''JWT'']"

definition hs256HeaderSeg :: string where
  "hs256HeaderSeg = ''eyJhbGciOiJIUzI1NiIsInR5cCI6IkpXVCJ9''"

definition hs256Header :: "string \<rightharpoonup> hval" where
  "hs256Header = [''alg'' \<mapsto> HString ''HS256'', ''typ'' \<mapsto> HString ''JWT'']"

definition fooHeaderSeg :: string where
  "fooHeaderSeg = ''eyJhbGciOiJGT08iLCJ0eXAiOiJKV1QifQ''"

definition fooHeader :: "string \<rightharpoonup> hval" where
  "fooHeader = [''alg'' \<mapsto> HString ''FOO'', ''typ'' \<mapsto> HString ''JWT'']"

text \<open>
  Payloads:
  \<^verbatim>\<open>{"iss":"https://securetoken.google.com/p1","sub":"u1","aud":["p1"],"exp":2000,"iat":900,"email":"j@x.io","name":"Jane","picture":"pic"}\<close>,
  \<^verbatim>\<open>{"sub":"u1"}\<close>, \<^verbatim>\<open>{"email":"j@x.io"}\<close> and
  \<^verbatim>\<open>{"iss":"https://securetoken.google.com/p1","sub":"u1","aud":["p1"],"exp":2000,"iat":1500}\<close>.
  A date is a number of seconds since the epoch.
\<close>

definition seconds :: "int \<Rightarrow> time" where
  "seconds n = n * 1000000000"

definition noClaims :: wire_claims where
  "noClaims =
     \<lparr>claim_iss = None, claim_sub = None, claim_aud = None, claim_exp = None,
      claim_nbf = None, claim_iat = None, claim_jti = None, claim_email = None,
      claim_name = None, claim_picture = None\<rparr>"

definition janeClaimsSeg :: string where
  "janeClaimsSeg = ''eyJpc3MiOiJodHRwczovL3NlY3VyZXRva2VuLmdvb2dsZS5jb20vcDEiLCJzdWIiOiJ1MSIsImF1ZCI6WyJwMSJdLCJleHAiOjIwMDAsImlhdCI6OTAwLCJlbWFpbCI6ImpAeC5pbyIsIm5hbWUiOiJKYW5lIiwicGljdHVyZSI6InBpYyJ9''"

definition janeClaims :: wire_claims where
  "janeClaims =
     noClaims\<lparr>claim_iss := Some ''https://securetoken.google.com/p1'',
              claim_sub := Some ''u1'', claim_aud := Some [''p1''],
              claim_exp := Some (seconds 2000), claim_iat := Some (seconds 900),
              claim_email := Some ''j@x.io'', claim_name := Some ''Jane'',
              claim_picture := Some ''pic''\<rparr>"

definition subOnlyClaimsSeg :: string where
  "subOnlyClaimsSeg = ''eyJzdWIiOiJ1MSJ9''"

definition subOnlyClaims :: wire_claims where
  "subOnlyClaims = noClaims\<lparr>claim_sub := Some ''u1''\<rparr>"

definition emailOnlyClaimsSeg :: string where
  "emailOnlyClaimsSeg = ''eyJlbWFpbCI6ImpAeC5pbyJ9''"

definition emailOnlyClaims :: wire_claims where
  "emailOnlyClaims = noClaims\<lparr>claim_email := Some ''j@x.io''\<rparr>"

definition futureIatClaimsSeg :: string where
  "futureIatClaimsSeg = ''eyJpc3MiOiJodHRwczovL3NlY3VyZXRva2VuLmdvb2dsZS5jb20vcDEiLCJzdWIiOiJ1MSIsImF1ZCI6WyJwMSJdLCJleHAiOjIwMDAsImlhdCI6MTUwMH0''"

definition futureIatClaims :: wire_claims where
  "futureIatClaims =
     noClaims\<lparr>claim_iss := Some ''https://securetoken.google.com/p1'',
              claim_sub := Some ''u1'', claim_aud := Some [''p1''],
              claim_exp := Some (seconds 2000), claim_iat := Some (seconds 1500)\<rparr>"

text \<open>
  An environment for evaluating the definitions on concrete tokens. Its decoders agree
  with base64url and JSON decoding on the segments above and reject every other segment.
  Its signature check accepts exactly the signature segment \<^verbatim>\<open>c2ln\<close> under the key
  \<open>demoKey\<close> for RS256. Its clock stands at second 1000, and its certificate endpoint
  answers with one RSA certificate for the key id \<^verbatim>\<open>k1\<close> and \<^verbatim>\<open>max-age=100\<close>.
\<close>

definition demoKey :: rsa_PublicKey where
  "demoKey = \<lparr>N = 3233, E = 17\<rparr>"

definition demoHeader :: "string \<Rightarrow> (string \<rightharpoonup> hval) option" where
  "demoHeader seg =
     (if seg = rs256HeaderSeg then Some rs256Header
      else if seg = noneHeaderSeg then Some noneHeader
      else if seg = hs256HeaderSeg then Some hs256Header
      else if seg = fooHeaderSeg then Some fooHeader
      else None)"

definition demoClaims :: "string \<Rightarrow> wire_claims option" where
  "demoClaims seg =
     (if seg = janeClaimsSeg then Some janeClaims
      else if seg = subOnlyClaimsSeg then Some subOnlyClaims
      else if seg = emailOnlyClaimsSeg then Some emailOnlyClaims
      else if seg = futureIatClaimsSeg then Some futureIatClaims
      else None)"

definition demoEnv :: env where
  "demoEnv =
     \<lparr>DecodeHeader = demoHeader,
      DecodeClaims = demoClaims,
      MethodVerify = (\<lambda>alg signingString signature key.
                        alg = ''RS256'' \<and> signature = ''c2ln'' \<and> key = demoKey),
      Now = (\<lambda>k. seconds 1000),
      HttpGet = (\<lambda>k. Response 200 ''public, max-age=100'' (Some ''certs'')),
      UnmarshalCertMap = (\<lambda>b. if b = ''certs'' then Some [(''k1'', ''pem1'')] else None),
      PemDecode = (\<lambda>p. if p = ''pem1'' then Some ''der1'' else None),
      ParseCertificate = (\<lambda>d. if d = ''der1'' then Some (RSAKey demoKey) else None)\<rparr>"

text \<open>The same environment with a certificate endpoint that answers 503.\<close>

definition downEnv :: env where
  "downEnv = demoEnv\<lparr>HttpGet := (\<lambda>k. Response 503 [] (Some []))\<rparr>"

text \<open>
  Token strings: an RS256 token for Jane, an unsigned token with only a subject, an
  HS256 token with only a subject, an unsigned token without a subject, an RS256 token
  issued 500 seconds in the future, a token that declares the unknown algorithm
  \<^verbatim>\<open>FOO\<close>, and an HS256 token whose payload segment is not base64url.
\<close>

definition janeToken :: string where
  "janeToken = rs256HeaderSeg @ ''.'' @ janeClaimsSeg @ ''.'' @ ''c2ln''"

definition unsignedToken :: string where
  "unsignedToken = noneHeaderSeg @ ''.'' @ subOnlyClaimsSeg @ ''.'' @ []"

definition hs256Token :: string where
  "hs256Token = hs256HeaderSeg @ ''.'' @ subOnlyClaimsSeg @ ''.'' @ ''c2ln''"

definition noSubjectToken :: string where
  "noSubjectToken = noneHeaderSeg @ ''.'' @ emailOnlyClaimsSeg @ ''.'' @ []"

definition futureIatToken :: string where
  "futureIatToken = rs256HeaderSeg @ ''.'' @ futureIatClaimsSeg @ ''.'' @ ''c2ln''"

definition fooToken :: string where
  "fooToken = fooHeaderSeg @ ''.'' @ subOnlyClaimsSeg @ ''.'' @ ''c2ln''"

definition badPayloadToken :: string where
  "badPayloadToken = hs256HeaderSeg @ ''.'' @ ''!!!'' @ ''.'' @ ''c2ln''"

text \<open>
  The state of a fresh process, a state whose cache holds \<^verbatim>\<open>k1\<close> until second 2000, and a
  state whose cache expired at second 500 and still holds a key \<^verbatim>\<open>old\<close>.
\<close>

definition freshState :: state where
  "freshState = \<lparr>keyCache = emptyCache, clockReads = 0, fetches = 0, calls = []\<rparr>"

definition warmState :: state where
  "warmState =
     \<lparr>keyCache = \<lparr>keys = [''k1'' \<mapsto> demoKey], expiry = seconds 2000\<rparr>,
      clockReads = 0, fetches = 0, calls = []\<rparr>"

definition oldKey :: rsa_PublicKey where
  "oldKey = \<lparr>N = 55, E = 3\<rparr>"

definition staleState :: state where
  "staleState =
     \<lparr>keyCache = \<lparr>keys = [''old'' \<mapsto> oldKey], expiry = seconds 500\<rparr>,
      clockReads = 0, fetches = 0, calls = []\<rparr>"

text \<open>Configurations and requests.\<close>

definition prodCfg :: firebaseConfig where
  "prodCfg =
     \<lparr>ProjectID = ''p1'', APIKey = ''AIzaSyTestKey'', AuthDomain = ''p1.firebaseapp.com'',
      AuthEmulatorHost = []\<rparr>"

definition emuCfg :: firebaseConfig where
  "emuCfg = prodCfg\<lparr>AuthEmulatorHost := ''localhost:9099''\<rparr>"

definition withAuthorization :: "string \<Rightarrow> request" where
  "withAuthorization v = \<lparr>HeaderFields = [''Authorization'' \<mapsto> [v]]\<rparr>"

definition bearerRequest :: "string \<Rightarrow> request" where
  "bearerRequest tok = withAuthorization (''Bearer '' @ tok)"

text \<open>
  Two callers racing for the expired cache of \<open>staleState\<close>, a schedule in which both see
  the cache expired before either refreshes, and a schedule for the same race against
  the endpoint that answers 503.
\<close>

definition twoCallers :: system where
  "twoCallers = callers staleState [''k1'', ''k2'']"

definition raceSchedule :: "nat list" where
  "raceSchedule = [0, 1, 0, 1, 0, 0, 0, 1, 1, 0, 0, 1, 1]"

definition failSchedule :: "nat list" where
  "failSchedule = [0, 1, 0, 1, 0, 0, 0, 1, 1, 1]"

text \<open>
  An environment whose clock moves: the first two readings give second 1000, the next
  three second 3000, and the readings from the sixth on second 5000, 5001 and so on. In
  it a refresh of \<open>staleState\<close> fills the cache until second 1100 (\<open>refilledState\<close>). The
  two callers that then race for this cache with \<open>raceSchedule\<close> find it expired at
  second 3000; the fetch of the first takes 2000 seconds, longer than the \<^verbatim>\<open>max-age\<close> of
  100 seconds, and sets the expiry to second 5100; the second caller takes the write
  lock at second 5001. \<open>raceFinal\<close> is the state in which the race ends.
\<close>

definition lateEnv :: env where
  "lateEnv =
     demoEnv\<lparr>Now := (\<lambda>k. if k < 2 then seconds 1000
                          else if k < 5 then seconds 3000
                          else seconds (5000 + int (k - 5)))\<rparr>"

definition refilledState :: state where
  "refilledState =
     \<lparr>keyCache = \<lparr>keys = [''k1'' \<mapsto> demoKey], expiry = seconds 1100\<rparr>,
      clockReads = 2, fetches = 1, calls = [CallRefresh]\<rparr>"

definition raceFinal :: system where
  "raceFinal =
     \<lparr>shared = \<lparr>keyCache = \<lparr>keys = [''k1'' \<mapsto> demoKey], expiry = seconds 5100\<rparr>,
                clockReads = 7, fetches = 2,
                calls = [CallRefresh, CallGetKey ''k1'', CallGetKey ''k2'', CallRefresh,
                         CallRefresh]\<rparr>,
      readers = 0, writer = False,
      threads = [\<lparr>tpc = Done (Inr demoKey), tkid = ''k1''\<rparr>,
                 \<lparr>tpc = Done (Inl (KeyNotFoundAfterRefresh ''k2'')), tkid = ''k2''\<rparr>]\<rparr>"

section \<open>Properties of the key cache\<close>

lemma calls_since_append [simp]: "calls s' = calls s @ evs \<Longrightarrow> calls_since s s' = evs"
  by (simp add: calls_since_def)

text \<open>
  C6. A call of \<^verbatim>\<open>getKey\<close> that reads the clock before the cache's expiry returns the key
  stored under the key id, or the not-found error when there is none; it leaves the key
  map and the expiry as they were, issues no request to the certificate endpoint, and
  does not call \<^verbatim>\<open>refresh\<close>: the only call logged is \<^verbatim>\<open>getKey\<close> itself.
\<close>

theorem getKey_unexpired:
  "Now En (clockReads s) < expiry (keyCache s) \<Longrightarrow>
     fst (getKey En kid s) =
       (case keys (keyCache s) kid of Some key \<Rightarrow> Inr key | None \<Rightarrow> Inl (KeyNotFound kid)) \<and>
     keyCache (snd (getKey En kid s)) = keyCache s \<and>
     fetches (snd (getKey En kid s)) = fetches s \<and>
     calls_since s (snd (getKey En kid s)) = [CallGetKey kid]"
  by (simp add: getKey_def time_Now_def record_call_def Let_def split: option.split)

theorem getKey_unexpired_witness:
  "Now demoEnv (clockReads warmState) < expiry (keyCache warmState) \<and>
   fst (getKey demoEnv ''k1'' warmState) = Inr demoKey \<and>
   fst (getKey demoEnv ''k2'' warmState) = Inl (KeyNotFound ''k2'') \<and>
   keyCache (snd (getKey demoEnv ''k2'' warmState)) = keyCache warmState \<and>
   fetches (snd (getKey demoEnv ''k2'' warmState)) = 0 \<and>
   calls_since warmState (snd (getKey demoEnv ''k2'' warmState)) = [CallGetKey ''k2'']"
proof -
  have h: "Now demoEnv (clockReads warmState) < expiry (keyCache warmState)"
    by (simp add: demoEnv_def warmState_def seconds_def)
  have k: "keys (keyCache warmState) ''k1'' = Some demoKey"
          "keys (keyCache warmState) ''k2'' = None"
          "fetches warmState = 0"
    by (simp_all add: warmState_def)
  show ?thesis
    using h getKey_unexpired [OF h, of "''k1''"] getKey_unexpired [OF h, of "''k2''"]
    by (simp add: k)
qed

subsection \<open>Refresh\<close>

lemma certKeys_step:
  "certKeys En ((kid, pem) # m) ks = Inr ks' \<Longrightarrow>
     \<exists>block k. PemDecode En pem = Some block \<and> ParseCertificate En block = Some (RSAKey k) \<and>
       certKeys En m (ks(kid \<mapsto> k)) = Inr ks'"
  by (simp split: option.splits public_key.splits)

lemma certKeys_dom:
  "certKeys En m ks = Inr ks' \<Longrightarrow> dom ks' = dom ks \<union> fst ` set m"
proof (induction m arbitrary: ks)
  case Nil
  then show ?case by simp
next
  case (Cons a m)
  obtain kid pem where a: "a = (kid, pem)" by (cases a)
  from Cons.prems a obtain k where "certKeys En m (ks(kid \<mapsto> k)) = Inr ks'"
    using certKeys_step by blast
  then have "dom ks' = dom (ks(kid \<mapsto> k)) \<union> fst ` set m" by (rule Cons.IH)
  then show ?case by (simp add: a)
qed

lemma certKeys_fails_iff:
  "(\<exists>e. certKeys En m ks = Inl e) \<longleftrightarrow> (\<exists>entry \<in> set m. \<not> goodCert En (snd entry))"
proof (induction m arbitrary: ks)
  case Nil
  then show ?case by simp
next
  case (Cons a m)
  obtain kid pem where a: "a = (kid, pem)" by (cases a)
  show ?case using Cons.IH
    by (auto simp: a goodCert_def split: option.splits public_key.splits)
qed

lemma certKeys_Inr_good:
  "certKeys En m ks = Inr ks' \<Longrightarrow> entry \<in> set m \<Longrightarrow> goodCert En (snd entry)"
  using certKeys_fails_iff [of En m ks] by auto

lemma refresh_error_keeps_cache:
  "fst (refresh En s) \<noteq> None \<Longrightarrow> keyCache (snd (refresh En s)) = keyCache s"
  by (auto simp: refresh_def fetchAndStore_def time_Now_def http_Get_def record_call_def Let_def
      split: if_splits http_result.splits option.splits sum.splits prod.splits)

lemma refresh_fails:
  "\<not> Now En (clockReads s) < expiry (keyCache s) \<Longrightarrow> failingFetch En (HttpGet En (fetches s))
     \<Longrightarrow> fst (refresh En s) \<noteq> None"
  by (auto simp: refresh_def fetchAndStore_def time_Now_def http_Get_def record_call_def Let_def failingFetch_def
      split: if_splits http_result.splits option.splits sum.splits prod.splits
      dest: certKeys_Inr_good)

lemma refresh_unexpired:
  "Now En (clockReads s) < expiry (keyCache s) \<Longrightarrow>
     fst (refresh En s) = None \<and> keyCache (snd (refresh En s)) = keyCache s \<and>
     fetches (snd (refresh En s)) = fetches s"
  by (simp add: refresh_def time_Now_def record_call_def Let_def)

lemma refresh_success:
  "\<not> Now En (clockReads s) < expiry (keyCache s) \<Longrightarrow> fst (refresh En s) = None \<Longrightarrow>
     \<exists>cc b certMap ks. HttpGet En (fetches s) = Response 200 cc (Some b) \<and>
        UnmarshalCertMap En b = Some certMap \<and>
        certKeys En certMap Map.empty = Inr ks \<and>
        keyCache (snd (refresh En s)) =
          \<lparr>keys = ks, expiry = Now En (Suc (clockReads s)) + secondsDuration (maxAgeOf cc)\<rparr>"
  by (auto simp: refresh_def fetchAndStore_def time_Now_def http_Get_def record_call_def Let_def
      split: if_splits http_result.splits option.splits sum.splits prod.splits)

lemma refresh_replaces:
  assumes "keyCache (snd (refresh En s)) \<noteq> keyCache s"
  shows "fst (refresh En s) = None \<and>
     (\<exists>cc b certMap. HttpGet En (fetches s) = Response 200 cc (Some b) \<and>
        UnmarshalCertMap En b = Some certMap \<and>
        certKeys En certMap Map.empty = Inr (keys (keyCache (snd (refresh En s)))) \<and>
        dom (keys (keyCache (snd (refresh En s)))) = fst ` set certMap)"
proof -
  have ok: "fst (refresh En s) = None"
    using assms refresh_error_keeps_cache by blast
  have expired: "\<not> Now En (clockReads s) < expiry (keyCache s)"
    using assms refresh_unexpired by blast
  from refresh_success [OF expired ok] obtain cc b certMap ks where
    r: "HttpGet En (fetches s) = Response 200 cc (Some b)"
       "UnmarshalCertMap En b = Some certMap"
       "certKeys En certMap Map.empty = Inr ks"
       "keyCache (snd (refresh En s)) =
          \<lparr>keys = ks, expiry = Now En (Suc (clockReads s)) + secondsDuration (maxAgeOf cc)\<rparr>"
    by blast
  have "dom ks = fst ` set certMap"
    using certKeys_dom [OF r(3)] by simp
  with ok r show ?thesis by simp
qed

lemma maxAgeOf_demo: "maxAgeOf ''public, max-age=100'' = 100"
  by code_simp

lemma refresh_demo_stale:
  "refresh demoEnv staleState =
     (None, \<lparr>keyCache = \<lparr>keys = [''k1'' \<mapsto> demoKey], expiry = seconds 1100\<rparr>,
             clockReads = 2, fetches = 1, calls = [CallRefresh]\<rparr>)"
  by (simp add: refresh_def fetchAndStore_def demoEnv_def staleState_def time_Now_def http_Get_def
      record_call_def Let_def seconds_def maxAgeOf_demo secondsDuration_def wrap64_def)

lemma refresh_down_stale:
  "refresh downEnv staleState =
     (Some (BadStatus 503), staleState\<lparr>clockReads := 1, fetches := 1, calls := [CallRefresh]\<rparr>)"
  by (simp add: refresh_def fetchAndStore_def downEnv_def demoEnv_def staleState_def time_Now_def http_Get_def
      record_call_def Let_def seconds_def)

lemma refresh_stores:
  assumes expired: "\<not> Now En (clockReads s) < expiry (keyCache s)"
    and ok: "HttpGet En (fetches s) = Response 200 cc (Some b)"
      "UnmarshalCertMap En b = Some certMap" "certKeys En certMap Map.empty = Inr ks"
  shows "refresh En s =
           (None, s\<lparr>calls := calls s @ [CallRefresh], clockReads := Suc (Suc (clockReads s)),
                    fetches := Suc (fetches s),
                    keyCache := \<lparr>keys = ks,
                      expiry = Now En (Suc (clockReads s)) + secondsDuration (maxAgeOf cc)\<rparr>\<rparr>)"
  using assms
  by (simp add: refresh_def fetchAndStore_def time_Now_def http_Get_def record_call_def Let_def)

lemma refresh_demo_fresh:
  "refresh demoEnv freshState =
     (None, \<lparr>keyCache = \<lparr>keys = [''k1'' \<mapsto> demoKey], expiry = seconds 1100\<rparr>,
             clockReads = 2, fetches = 1, calls = [CallRefresh]\<rparr>)"
  by (simp add: refresh_def fetchAndStore_def demoEnv_def freshState_def emptyCache_def zeroTime_def
      time_Now_def http_Get_def record_call_def Let_def seconds_def maxAgeOf_demo
      secondsDuration_def wrap64_def)

text \<open>
  C5. A \<^verbatim>\<open>refresh\<close> that returns an error leaves the key map and the expiry of the cache
  as they were. On an expired cache every failing fetch (no response, a status other than
  200, an unreadable or malformed body, a malformed PEM block or certificate, a key that
  is not RSA) makes \<^verbatim>\<open>refresh\<close> return an error, and every other fetch makes it succeed.
  A \<^verbatim>\<open>refresh\<close> of an expired cache that succeeds has received a 200 response and has
  stored the key map built from the fetched certificate map alone, starting from the
  empty map, with the expiry computed from the response: the key ids of the cache are
  then exactly the fetched ones, so no old key survives and a cache without keys is
  filled. The cache changes in no other case.
\<close>

theorem refresh_state_unchanged_on_error:
  "(fst (refresh En s) \<noteq> None \<longrightarrow> keyCache (snd (refresh En s)) = keyCache s) \<and>
   (\<not> Now En (clockReads s) < expiry (keyCache s) \<and> failingFetch En (HttpGet En (fetches s))
      \<longrightarrow> fst (refresh En s) \<noteq> None) \<and>
   (keyCache (snd (refresh En s)) \<noteq> keyCache s \<longrightarrow>
      fst (refresh En s) = None \<and>
      (\<exists>cc b certMap. HttpGet En (fetches s) = Response 200 cc (Some b) \<and>
         UnmarshalCertMap En b = Some certMap \<and>
         certKeys En certMap Map.empty = Inr (keys (keyCache (snd (refresh En s)))) \<and>
         dom (keys (keyCache (snd (refresh En s)))) = fst ` set certMap)) \<and>
   (\<not> Now En (clockReads s) < expiry (keyCache s) \<and> fst (refresh En s) = None \<longrightarrow>
      (\<exists>cc b certMap ks. HttpGet En (fetches s) = Response 200 cc (Some b) \<and>
         UnmarshalCertMap En b = Some certMap \<and>
         certKeys En certMap Map.empty = Inr ks \<and>
         dom ks = fst ` set certMap \<and>
         keyCache (snd (refresh En s)) =
           \<lparr>keys = ks,
            expiry = Now En (Suc (clockReads s)) + secondsDuration (maxAgeOf cc)\<rparr>)) \<and>
   (\<not> Now En (clockReads s) < expiry (keyCache s) \<and>
    \<not> failingFetch En (HttpGet En (fetches s)) \<longrightarrow> fst (refresh En s) = None) \<and>
   (\<not> Now En (clockReads s) < expiry (keyCache s) \<and>
    HttpGet En (fetches s) = Response 200 cc' (Some b') \<and>
    UnmarshalCertMap En b' = Some certMap' \<and>
    certKeys En certMap' Map.empty = Inr ks' \<longrightarrow>
      fst (refresh En s) = None \<and>
      keyCache (snd (refresh En s)) =
        \<lparr>keys = ks',
         expiry = Now En (Suc (clockReads s)) + secondsDuration (maxAgeOf cc')\<rparr>)"
proof -
  have stored: "\<exists>cc b certMap ks. HttpGet En (fetches s) = Response 200 cc (Some b) \<and>
         UnmarshalCertMap En b = Some certMap \<and>
         certKeys En certMap Map.empty = Inr ks \<and>
         dom ks = fst ` set certMap \<and>
         keyCache (snd (refresh En s)) =
           \<lparr>keys = ks,
            expiry = Now En (Suc (clockReads s)) + secondsDuration (maxAgeOf cc)\<rparr>"
    if expired: "\<not> Now En (clockReads s) < expiry (keyCache s)"
      and ok: "fst (refresh En s) = None"
  proof -
    from refresh_success [OF expired ok] obtain cc b certMap ks where
      r: "HttpGet En (fetches s) = Response 200 cc (Some b)"
         "UnmarshalCertMap En b = Some certMap"
         "certKeys En certMap Map.empty = Inr ks"
         "keyCache (snd (refresh En s)) =
            \<lparr>keys = ks, expiry = Now En (Suc (clockReads s)) + secondsDuration (maxAgeOf cc)\<rparr>"
      by blast
    have "dom ks = fst ` set certMap"
      using certKeys_dom [OF r(3)] by simp
    with r show ?thesis by blast
  qed
  have succeeds: "fst (refresh En s) = None"
    if "\<not> Now En (clockReads s) < expiry (keyCache s)"
      "\<not> failingFetch En (HttpGet En (fetches s))"
  proof (cases "HttpGet En (fetches s)")
    case GetFailed
    then show ?thesis using that(2) by (simp add: failingFetch_def)
  next
    case (Response status cc body)
    from that(2) Response obtain b certMap where
      g: "status = 200" "body = Some b" "UnmarshalCertMap En b = Some certMap"
         "\<forall>entry \<in> set certMap. goodCert En (snd entry)"
      by (auto simp: failingFetch_def split: option.splits)
    from g(4) certKeys_fails_iff [of En certMap Map.empty] obtain ks where
      "certKeys En certMap Map.empty = Inr ks"
      by (cases "certKeys En certMap Map.empty") auto
    then show ?thesis
      using refresh_stores [OF that(1), of cc b certMap ks] Response g by simp
  qed
  have given: "fst (refresh En s) = None \<and>
      keyCache (snd (refresh En s)) =
        \<lparr>keys = ks',
         expiry = Now En (Suc (clockReads s)) + secondsDuration (maxAgeOf cc')\<rparr>"
    if "\<not> Now En (clockReads s) < expiry (keyCache s)"
      "HttpGet En (fetches s) = Response 200 cc' (Some b')"
      "UnmarshalCertMap En b' = Some certMap'"
      "certKeys En certMap' Map.empty = Inr ks'"
    using refresh_stores [OF that] by simp
  show ?thesis
    using refresh_error_keeps_cache [of En s] refresh_fails [of En s] refresh_replaces [of En s]
      stored succeeds given
    by blast
qed

theorem refresh_state_unchanged_on_error_witness:
  "\<not> Now downEnv (clockReads staleState) < expiry (keyCache staleState) \<and>
   failingFetch downEnv (HttpGet downEnv (fetches staleState)) \<and>
   fst (refresh downEnv staleState) = Some (BadStatus 503) \<and>
   keyCache (snd (refresh downEnv staleState)) = keyCache staleState \<and>
   keyCache (snd (refresh demoEnv staleState)) \<noteq> keyCache staleState \<and>
   fst (refresh demoEnv staleState) = None \<and>
   keys (keyCache staleState) ''old'' = Some oldKey \<and>
   dom (keys (keyCache (snd (refresh demoEnv staleState)))) = {''k1''} \<and>
   \<not> Now demoEnv (clockReads freshState) < expiry (keyCache freshState) \<and>
   \<not> failingFetch demoEnv (HttpGet demoEnv (fetches freshState)) \<and>
   HttpGet demoEnv (fetches freshState) = Response 200 ''public, max-age=100'' (Some ''certs'') \<and>
   UnmarshalCertMap demoEnv ''certs'' = Some [(''k1'', ''pem1'')] \<and>
   certKeys demoEnv [(''k1'', ''pem1'')] Map.empty = Inr [''k1'' \<mapsto> demoKey] \<and>
   keys (keyCache freshState) = Map.empty \<and>
   fst (refresh demoEnv freshState) = None \<and>
   keyCache (snd (refresh demoEnv freshState)) =
     \<lparr>keys = [''k1'' \<mapsto> demoKey], expiry = seconds 1100\<rparr>"
proof -
  have a: "\<not> Now downEnv (clockReads staleState) < expiry (keyCache staleState)"
    by (simp add: downEnv_def demoEnv_def staleState_def seconds_def)
  have b: "failingFetch downEnv (HttpGet downEnv (fetches staleState))"
    by (simp add: failingFetch_def downEnv_def)
  have c: "keys (keyCache staleState) ''old'' = Some oldKey"
    by (simp add: staleState_def)
  have d: "keys (keyCache (snd (refresh demoEnv staleState))) ''old'' = None"
    by (simp add: refresh_demo_stale)
  from c d have e: "keyCache (snd (refresh demoEnv staleState)) \<noteq> keyCache staleState"
    by auto
  have f: "\<not> Now demoEnv (clockReads freshState) < expiry (keyCache freshState)"
    by (simp add: demoEnv_def freshState_def emptyCache_def zeroTime_def seconds_def)
  have g: "HttpGet demoEnv (fetches freshState) =
             Response 200 ''public, max-age=100'' (Some ''certs'')"
    by (simp add: demoEnv_def)
  have u: "UnmarshalCertMap demoEnv ''certs'' = Some [(''k1'', ''pem1'')]"
    by (simp add: demoEnv_def)
  have k: "certKeys demoEnv [(''k1'', ''pem1'')] Map.empty = Inr [''k1'' \<mapsto> demoKey]"
    by (simp add: demoEnv_def)
  have n: "\<not> failingFetch demoEnv (HttpGet demoEnv (fetches freshState))"
    by (simp add: failingFetch_def goodCert_def demoEnv_def)
  have m: "keys (keyCache freshState) = Map.empty"
    by (simp add: freshState_def emptyCache_def)
  have x: "secondsDuration (maxAgeOf ''public, max-age=100'') = seconds 100"
    by (simp add: maxAgeOf_demo secondsDuration_def wrap64_def seconds_def)
  show ?thesis
    using a b c e f g u k n m
      refresh_state_unchanged_on_error [of downEnv staleState]
      refresh_state_unchanged_on_error [of demoEnv staleState]
      refresh_state_unchanged_on_error [of demoEnv freshState "''public, max-age=100''"
        "''certs''" "[(''k1'', ''pem1'')]" "[''k1'' \<mapsto> demoKey]"]
    by (simp add: refresh_down_stale refresh_demo_stale refresh_demo_fresh)
qed

section \<open>Properties of the parser\<close>

lemma splitOn_no_sep: "c \<notin> set a \<Longrightarrow> splitOn c a = [a]"
  by (induction a) auto

lemma splitOn_append_sep: "c \<notin> set a \<Longrightarrow> splitOn c (a @ c # rest) = a # splitOn c rest"
  by (induction a) auto

lemma splitOn_three:
  assumes "CHR ''.'' \<notin> set a" "CHR ''.'' \<notin> set b" "CHR ''.'' \<notin> set c"
  shows "splitOn CHR ''.'' (a @ ''.'' @ b @ ''.'' @ c) = [a, b, c]"
  using assms by (simp add: splitOn_append_sep splitOn_no_sep)

lemma splitToken_three:
  assumes "CHR ''.'' \<notin> set a" "CHR ''.'' \<notin> set b" "CHR ''.'' \<notin> set c"
  shows "splitToken (a @ ''.'' @ b @ ''.'' @ c) = Some (a, b, c)"
  unfolding splitToken_def splitOn_three [OF assms] by simp

lemma splitToken_empty: "splitToken [] = None"
  by (simp add: splitToken_def)

lemma splitToken_Some:
  "splitToken tok = Some (p0, p1, p2) \<Longrightarrow> splitOn CHR ''.'' tok = [p0, p1, p2]"
  by (auto simp: splitToken_def split: list.splits)

lemma ParseUnverified_any_parser:
  "ParseUnverified p En tok = ParseUnverified p' En tok"
  by (simp add: ParseUnverified_def)

lemma ParseUnverified_ok:
  assumes "splitToken tok = Some (p0, p1, p2)" "DecodeHeader En p0 = Some h"
    "DecodeClaims En p1 = Some w" "h ''alg'' = Some (HString alg)" "alg \<in> set signingMethods"
  shows "ParseUnverified p En tok =
           Inr (\<lparr>Raw = tok, Method = alg, Header = h, Claims = bindClaims w,
                 Signature = [], Valid = False\<rparr>, p0, p1, p2)"
  using assms by (simp add: ParseUnverified_def GetSigningMethod_def)

lemma ParseUnverified_Inr:
  assumes "ParseUnverified p En tok = Inr (token, p0, p1, p2)"
  shows "splitToken tok = Some (p0, p1, p2) \<and>
         (\<exists>h w. DecodeHeader En p0 = Some h \<and> DecodeClaims En p1 = Some w \<and>
            h ''alg'' = Some (HString (Method token)) \<and> Method token \<in> set signingMethods \<and>
            token = \<lparr>Raw = tok, Method = Method token, Header = h, Claims = bindClaims w,
                     Signature = [], Valid = False\<rparr>)"
  using assms
  by (auto simp: ParseUnverified_def GetSigningMethod_def
      split: option.splits hval.splits if_splits)

lemma ParseUnverified_declaredAlg:
  "ParseUnverified p En tok = Inr (token, parts) \<Longrightarrow> declaredAlg En tok = Some (Method token)"
  by (cases parts) (auto simp: declaredAlg_def dest!: ParseUnverified_Inr splitToken_Some)

lemma ParseWithClaims_Inr:
  assumes "ParseWithClaims p En tok kf s = (Inr vt, s')"
  shows "\<exists>token p0 p1 p2. ParseUnverified NewParser En tok = Inr (token, p0, p1, p2) \<and>
           vt = token\<lparr>Signature := p2, Valid := True\<rparr>"
proof -
  have eq: "ParseUnverified p En tok = ParseUnverified NewParser En tok"
    by (rule ParseUnverified_any_parser)
  show ?thesis
    using assms unfolding ParseWithClaims_def eq
    by (cases "ParseUnverified NewParser En tok")
       (auto simp: Let_def time_Now_def split: if_splits prod.splits)
qed

lemma foundAud_iff: "foundAud auds pid \<longleftrightarrow> pid \<in> set auds"
  by (induction auds) auto

subsection \<open>The concrete tokens\<close>

lemma demoEnv_sel:
  "DecodeHeader demoEnv = demoHeader"
  "DecodeClaims demoEnv = demoClaims"
  "MethodVerify demoEnv alg ss sg key = (alg = ''RS256'' \<and> sg = ''c2ln'' \<and> key = demoKey)"
  "Now demoEnv k = seconds 1000"
  "HttpGet demoEnv k = Response 200 ''public, max-age=100'' (Some ''certs'')"
  by (simp_all add: demoEnv_def)

lemma no_dot:
  "CHR ''.'' \<notin> set rs256HeaderSeg" "CHR ''.'' \<notin> set noneHeaderSeg"
  "CHR ''.'' \<notin> set hs256HeaderSeg" "CHR ''.'' \<notin> set fooHeaderSeg"
  "CHR ''.'' \<notin> set janeClaimsSeg" "CHR ''.'' \<notin> set subOnlyClaimsSeg"
  "CHR ''.'' \<notin> set emailOnlyClaimsSeg" "CHR ''.'' \<notin> set futureIatClaimsSeg"
  "CHR ''.'' \<notin> set ''c2ln''" "CHR ''.'' \<notin> set []" "CHR ''.'' \<notin> set ''!!!''"
  by (simp_all add: rs256HeaderSeg_def noneHeaderSeg_def hs256HeaderSeg_def fooHeaderSeg_def
      janeClaimsSeg_def subOnlyClaimsSeg_def emailOnlyClaimsSeg_def futureIatClaimsSeg_def)

lemma demoHeader_eval:
  "demoHeader rs256HeaderSeg = Some rs256Header"
  "demoHeader noneHeaderSeg = Some noneHeader"
  "demoHeader hs256HeaderSeg = Some hs256Header"
  by (simp_all add: demoHeader_def rs256HeaderSeg_def noneHeaderSeg_def hs256HeaderSeg_def)

lemma demoClaims_eval:
  "demoClaims janeClaimsSeg = Some janeClaims"
  "demoClaims subOnlyClaimsSeg = Some subOnlyClaims"
  "demoClaims emailOnlyClaimsSeg = Some emailOnlyClaims"
  "demoClaims futureIatClaimsSeg = Some futureIatClaims"
  "demoClaims ''!!!'' = None"
  by (simp_all add: demoClaims_def janeClaimsSeg_def subOnlyClaimsSeg_def
      emailOnlyClaimsSeg_def futureIatClaimsSeg_def)

lemma header_alg:
  "rs256Header ''alg'' = Some (HString ''RS256'')" "rs256Header ''kid'' = Some (HString ''k1'')"
  "noneHeader ''alg'' = Some (HString ''none'')" "hs256Header ''alg'' = Some (HString ''HS256'')"
  by (simp_all add: rs256Header_def noneHeader_def hs256Header_def)

lemma registered: "''RS256'' \<in> set signingMethods" "''none'' \<in> set signingMethods"
  "''HS256'' \<in> set signingMethods"
  by (simp_all add: signingMethods_def)

lemma splitToken_demo:
  "splitToken janeToken = Some (rs256HeaderSeg, janeClaimsSeg, ''c2ln'')"
  "splitToken unsignedToken = Some (noneHeaderSeg, subOnlyClaimsSeg, [])"
  "splitToken hs256Token = Some (hs256HeaderSeg, subOnlyClaimsSeg, ''c2ln'')"
  "splitToken noSubjectToken = Some (noneHeaderSeg, emailOnlyClaimsSeg, [])"
  "splitToken futureIatToken = Some (rs256HeaderSeg, futureIatClaimsSeg, ''c2ln'')"
  "splitToken badPayloadToken = Some (hs256HeaderSeg, ''!!!'', ''c2ln'')"
  unfolding janeToken_def unsignedToken_def hs256Token_def noSubjectToken_def
    futureIatToken_def badPayloadToken_def
  by (rule splitToken_three; rule no_dot)+

lemma parse_jane:
  "ParseUnverified p demoEnv janeToken =
     Inr (\<lparr>Raw = janeToken, Method = ''RS256'', Header = rs256Header,
           Claims = bindClaims janeClaims, Signature = [], Valid = False\<rparr>,
          rs256HeaderSeg, janeClaimsSeg, ''c2ln'')"
  by (rule ParseUnverified_ok [OF splitToken_demo(1)])
     (simp_all add: demoEnv_sel demoHeader_eval demoClaims_eval header_alg registered)

lemma parse_unsigned:
  "ParseUnverified p demoEnv unsignedToken =
     Inr (\<lparr>Raw = unsignedToken, Method = ''none'', Header = noneHeader,
           Claims = bindClaims subOnlyClaims, Signature = [], Valid = False\<rparr>,
          noneHeaderSeg, subOnlyClaimsSeg, [])"
  by (rule ParseUnverified_ok [OF splitToken_demo(2)])
     (simp_all add: demoEnv_sel demoHeader_eval demoClaims_eval header_alg registered)

lemma parse_hs256:
  "ParseUnverified p demoEnv hs256Token =
     Inr (\<lparr>Raw = hs256Token, Method = ''HS256'', Header = hs256Header,
           Claims = bindClaims subOnlyClaims, Signature = [], Valid = False\<rparr>,
          hs256HeaderSeg, subOnlyClaimsSeg, ''c2ln'')"
  by (rule ParseUnverified_ok [OF splitToken_demo(3)])
     (simp_all add: demoEnv_sel demoHeader_eval demoClaims_eval header_alg registered)

lemma parse_noSubject:
  "ParseUnverified p demoEnv noSubjectToken =
     Inr (\<lparr>Raw = noSubjectToken, Method = ''none'', Header = noneHeader,
           Claims = bindClaims emailOnlyClaims, Signature = [], Valid = False\<rparr>,
          noneHeaderSeg, emailOnlyClaimsSeg, [])"
  by (rule ParseUnverified_ok [OF splitToken_demo(4)])
     (simp_all add: demoEnv_sel demoHeader_eval demoClaims_eval header_alg registered)

lemma parse_futureIat:
  "ParseUnverified p demoEnv futureIatToken =
     Inr (\<lparr>Raw = futureIatToken, Method = ''RS256'', Header = rs256Header,
           Claims = bindClaims futureIatClaims, Signature = [], Valid = False\<rparr>,
          rs256HeaderSeg, futureIatClaimsSeg, ''c2ln'')"
  by (rule ParseUnverified_ok [OF splitToken_demo(5)])
     (simp_all add: demoEnv_sel demoHeader_eval demoClaims_eval header_alg registered)

lemma parse_foo: "ParseUnverified p demoEnv fooToken = Inl [Unverifiable]"
proof -
  have "splitToken fooToken = Some (fooHeaderSeg, subOnlyClaimsSeg, ''c2ln'')"
    unfolding fooToken_def by (rule splitToken_three; rule no_dot)
  moreover have "demoHeader fooHeaderSeg = Some fooHeader"
    by (simp add: demoHeader_def rs256HeaderSeg_def noneHeaderSeg_def hs256HeaderSeg_def
        fooHeaderSeg_def)
  ultimately show ?thesis
    by (simp add: ParseUnverified_def demoEnv_sel demoClaims_eval fooHeader_def
        GetSigningMethod_def signingMethods_def)
qed

lemma parse_badPayload: "ParseUnverified p demoEnv badPayloadToken = Inl [Malformed]"
  by (simp add: ParseUnverified_def splitToken_demo demoEnv_sel demoHeader_eval demoClaims_eval)

lemma declaredAlg_demo:
  "declaredAlg demoEnv unsignedToken = Some ''none''"
  "declaredAlg demoEnv hs256Token = Some ''HS256''"
  "declaredAlg demoEnv badPayloadToken = Some ''HS256''"
  by (simp_all add: declaredAlg_def splitToken_Some [OF splitToken_demo(2)]
      splitToken_Some [OF splitToken_demo(3)] splitToken_Some [OF splitToken_demo(6)]
      demoEnv_sel demoHeader_eval header_alg)

section \<open>Properties of the verifiers\<close>

lemma refresh_calls: "calls (snd (refresh En s)) = calls s @ [CallRefresh]"
  by (auto simp: refresh_def fetchAndStore_def time_Now_def http_Get_def record_call_def Let_def
      split: if_splits http_result.splits option.splits sum.splits prod.splits)

lemma getKey_calls:
  "calls (snd (getKey En kid s)) = calls s @ [CallGetKey kid] \<or>
   calls (snd (getKey En kid s)) = calls s @ [CallGetKey kid, CallRefresh]"
proof -
  let ?s1 = "(record_call (CallGetKey kid) s)\<lparr>clockReads := Suc (clockReads s)\<rparr>"
  have "calls (snd (refresh En ?s1)) = calls s @ [CallGetKey kid, CallRefresh]"
    by (simp add: refresh_calls record_call_def)
  then show ?thesis
    by (cases "refresh En ?s1")
       (auto simp: getKey_def time_Now_def record_call_def Let_def split: option.splits)
qed

lemma ParseWithClaims_calls:
  "calls (snd (ParseWithClaims p En tok kf s)) = calls s \<or>
   (\<exists>m. calls (snd (ParseWithClaims p En tok kf s)) = calls s @ [SignatureCheck m])"
  by (auto simp: ParseWithClaims_def time_Now_def record_call_def Let_def
      split: sum.splits prod.splits option.splits)

lemma verifyEmulatorToken_state:
  "snd (verifyEmulatorToken En tok pid s) = record_call (CallVerifyEmulatorToken tok) s"
  by (auto simp: verifyEmulatorToken_def Let_def split: sum.splits prod.splits)

lemma verifyIDToken_parse_error:
  "ParseUnverified NewParser En tok = Inl e \<Longrightarrow>
     verifyIDToken En tok pid s = (Inl (ParsingToken e), record_call (CallVerifyIDToken tok) s)"
  by (simp add: verifyIDToken_def Let_def)

lemma verifyIDToken_other_alg:
  "ParseUnverified NewParser En tok = Inr (token, parts) \<Longrightarrow> Method token \<noteq> ''RS256'' \<Longrightarrow>
     verifyIDToken En tok pid s =
       (Inl (UnexpectedSigningAlgorithm (Method token)), record_call (CallVerifyIDToken tok) s)"
  by (simp add: verifyIDToken_def Let_def)

lemma verifyIDToken_calls:
  "\<exists>evs. calls (snd (verifyIDToken En tok pid s)) = calls s @ CallVerifyIDToken tok # evs \<and>
         verifierCalls evs = []"
proof -
  let ?s = "record_call (CallVerifyIDToken tok) s"
  have s: "calls ?s = calls s @ [CallVerifyIDToken tok]" by (simp add: record_call_def)
  show ?thesis
  proof (cases "ParseUnverified NewParser En tok")
    case (Inl e)
    then show ?thesis by (simp add: verifyIDToken_def Let_def s verifierCalls_def)
  next
    case (Inr tp)
    obtain token parts where tp: "tp = (token, parts)" by (cases tp)
    show ?thesis
    proof (cases "Method token \<noteq> ''RS256'' \<or>
                  (\<forall>kid. Header token ''kid'' = Some (HString kid) \<longrightarrow> kid = [])")
      case True
      then show ?thesis using Inr tp
        by (auto simp: verifyIDToken_def Let_def s verifierCalls_def
            split: option.splits hval.splits)
    next
      case False
      then obtain kid where kid: "Method token = ''RS256''"
          "Header token ''kid'' = Some (HString kid)" "kid \<noteq> []"
        by auto
      obtain r1 s1 where g: "getKey En kid ?s = (r1, s1)" by (cases "getKey En kid ?s")
      have c1: "calls s1 = calls ?s @ [CallGetKey kid] \<or>
                calls s1 = calls ?s @ [CallGetKey kid, CallRefresh]"
        using getKey_calls [of En kid ?s] g by simp
      show ?thesis
      proof (cases r1)
        case (Inl e)
        then show ?thesis using Inr tp kid g c1
          by (auto simp: verifyIDToken_def Let_def s verifierCalls_def isVerifierCall_def)
      next
        case (Inr pubKey)
        let ?P = "\<lparr>ValidMethods = Some [''RS256''], SkipClaimsValidation = False\<rparr>"
        obtain r2 s2 where pw: "ParseWithClaims ?P En tok (\<lambda>t. pubKey) s1 = (r2, s2)"
          by (cases "ParseWithClaims ?P En tok (\<lambda>t. pubKey) s1")
        have c2: "calls s2 = calls s1 \<or> (\<exists>m. calls s2 = calls s1 @ [SignatureCheck m])"
          using ParseWithClaims_calls [of ?P En tok "\<lambda>t. pubKey" s1] pw by simp
        have "snd (verifyIDToken En tok pid s) = s2"
          using \<open>ParseUnverified NewParser En tok = Inr tp\<close> tp kid g Inr pw
          by (auto simp: verifyIDToken_def Let_def split: sum.splits)
        then show ?thesis using c1 c2
          by (auto simp: s verifierCalls_def isVerifierCall_def)
      qed
    qed
  qed
qed

lemma verifyEmulatorToken_Inr:
  assumes "fst (verifyEmulatorToken En tok pid s) = Inr u"
  shows "\<exists>token parts. ParseUnverified NewParser En tok = Inr (token, parts) \<and>
        Subject (Claims token) \<noteq> [] \<and> u = toUser (Claims token)"
proof -
  have eq: "ParseUnverified \<lparr>ValidMethods = Some [''none'', ''RS256''],
              SkipClaimsValidation = True\<rparr> En tok = ParseUnverified NewParser En tok"
    by (rule ParseUnverified_any_parser)
  show ?thesis
    using assms unfolding verifyEmulatorToken_def Let_def eq
    by (cases "ParseUnverified NewParser En tok") (auto split: if_splits)
qed

lemma verifyEmulatorToken_ok:
  assumes "ParseUnverified NewParser En tok = Inr (token, parts)" "Subject (Claims token) \<noteq> []"
  shows "fst (verifyEmulatorToken En tok pid s) = Inr (toUser (Claims token))"
proof -
  have eq: "ParseUnverified \<lparr>ValidMethods = Some [''none'', ''RS256''],
              SkipClaimsValidation = True\<rparr> En tok = ParseUnverified NewParser En tok"
    by (rule ParseUnverified_any_parser)
  show ?thesis
    using assms unfolding verifyEmulatorToken_def Let_def eq by simp
qed

lemma verifyEmulatorToken_empty_subject:
  assumes "ParseUnverified NewParser En tok = Inr (token, parts)" "Subject (Claims token) = []"
  shows "fst (verifyEmulatorToken En tok pid s) = Inl EmulatorSubjectEmpty"
proof -
  have eq: "ParseUnverified \<lparr>ValidMethods = Some [''none'', ''RS256''],
              SkipClaimsValidation = True\<rparr> En tok = ParseUnverified NewParser En tok"
    by (rule ParseUnverified_any_parser)
  show ?thesis
    using assms unfolding verifyEmulatorToken_def Let_def eq by simp
qed

lemma verifyIDToken_Inr:
  assumes "fst (verifyIDToken En tok pid s) = Inr u"
  shows "\<exists>token parts. ParseUnverified NewParser En tok = Inr (token, parts) \<and>
           Method token = ''RS256'' \<and> u = toUser (Claims token) \<and>
           Subject (Claims token) \<noteq> [] \<and>
           Issuer (Claims token) = ''https://securetoken.google.com/'' @ pid \<and>
           pid \<in> set (Audience (Claims token))"
proof (cases "ParseUnverified NewParser En tok")
  case (Inl e)
  then show ?thesis using assms by (simp add: verifyIDToken_parse_error)
next
  case (Inr tp)
  obtain token parts where tp: "tp = (token, parts)" by (cases tp)
  let ?s = "record_call (CallVerifyIDToken tok) s"
  have rs: "Method token = ''RS256''"
    using assms Inr tp verifyIDToken_other_alg [of En tok token parts pid s] by fastforce
  obtain kid where kid: "Header token ''kid'' = Some (HString kid)" "kid \<noteq> []"
    using assms Inr tp rs
    by (auto simp: verifyIDToken_def Let_def split: option.splits hval.splits if_splits)
  obtain r1 s1 where g: "getKey En kid ?s = (r1, s1)" by (cases "getKey En kid ?s")
  obtain pubKey where r1: "r1 = Inr pubKey"
    using assms Inr tp rs kid g by (cases r1) (auto simp: verifyIDToken_def Let_def)
  let ?P = "\<lparr>ValidMethods = Some [''RS256''], SkipClaimsValidation = False\<rparr>"
  obtain r2 s2 where pw: "ParseWithClaims ?P En tok (\<lambda>t. pubKey) s1 = (r2, s2)"
    by (cases "ParseWithClaims ?P En tok (\<lambda>t. pubKey) s1")
  obtain vt where r2: "r2 = Inr vt"
    using assms Inr tp rs kid g r1 pw by (cases r2) (auto simp: verifyIDToken_def Let_def)
  from ParseWithClaims_Inr [OF pw [unfolded r2]] Inr tp
  have vt: "Claims vt = Claims token" by auto
  have "u = toUser (Claims token) \<and> Subject (Claims token) \<noteq> [] \<and>
        Issuer (Claims token) = ''https://securetoken.google.com/'' @ pid \<and>
        pid \<in> set (Audience (Claims token))"
    using assms Inr tp rs kid g r1 pw r2 vt
    by (auto simp: verifyIDToken_def Let_def foundAud_iff split: if_splits)
  then show ?thesis using Inr tp rs by blast
qed

lemma verifyEmulatorToken_empty:
  "verifyEmulatorToken En [] pid s =
     (Inl (ParsingEmulatorToken [Malformed]), record_call (CallVerifyEmulatorToken []) s)"
  by (simp add: verifyEmulatorToken_def ParseUnverified_def splitToken_empty Let_def)

lemma verifyIDToken_empty:
  "verifyIDToken En [] pid s =
     (Inl (ParsingToken [Malformed]), record_call (CallVerifyIDToken []) s)"
  by (simp add: verifyIDToken_def ParseUnverified_def splitToken_empty Let_def)

subsection \<open>Evaluation on the concrete tokens\<close>

lemma user_subOnly:
  "toUser (bindClaims subOnlyClaims) = \<lparr>UID = ''u1'', uEmail = [], uName = [], uPicture = []\<rparr>"
  "Subject (bindClaims subOnlyClaims) = ''u1''"
  by (simp_all add: toUser_def bindClaims_def subOnlyClaims_def noClaims_def orEmpty_def)

lemma verifyEmu_unsigned:
  "fst (verifyEmulatorToken demoEnv unsignedToken pid s) =
     Inr \<lparr>UID = ''u1'', uEmail = [], uName = [], uPicture = []\<rparr>"
  using verifyEmulatorToken_ok [OF parse_unsigned, of pid s] by (simp add: user_subOnly)

lemma verifyEmu_hs256:
  "fst (verifyEmulatorToken demoEnv hs256Token pid s) =
     Inr \<lparr>UID = ''u1'', uEmail = [], uName = [], uPicture = []\<rparr>"
  using verifyEmulatorToken_ok [OF parse_hs256, of pid s] by (simp add: user_subOnly)

lemma verifyID_unsigned:
  "verifyIDToken demoEnv unsignedToken pid s =
     (Inl (UnexpectedSigningAlgorithm ''none''), record_call (CallVerifyIDToken unsignedToken) s)"
  using verifyIDToken_other_alg [OF parse_unsigned, of pid s] by simp

lemma verifyID_foo:
  "verifyIDToken demoEnv fooToken pid s =
     (Inl (ParsingToken [Unverifiable]), record_call (CallVerifyIDToken fooToken) s)"
  by (simp add: verifyIDToken_parse_error parse_foo)

lemma verifyEmu_noSubject:
  "fst (verifyEmulatorToken demoEnv noSubjectToken pid s) = Inl EmulatorSubjectEmpty"
proof -
  have "Subject (bindClaims emailOnlyClaims) = []"
    by (simp add: bindClaims_def emailOnlyClaims_def noClaims_def orEmpty_def)
  then show ?thesis
    using verifyEmulatorToken_empty_subject [OF parse_noSubject, of pid s] by simp
qed

text \<open>
  C2. A token string whose header declares an algorithm other than RS256 is rejected by
  \<^verbatim>\<open>verifyIDToken\<close> with nothing done but the logging of the call itself: no key lookup, no
  signature check, no reading of the clock, no fetch. The error is the
  unexpected-signing-algorithm error when the unverified parse of the library accepts
  the token string, and the parsing error otherwise. In particular an unsigned token
  that \<^verbatim>\<open>verifyEmulatorToken\<close> accepts is rejected by \<^verbatim>\<open>verifyIDToken\<close> with the
  unexpected-signing-algorithm error.
\<close>

theorem verifyIDToken_rejects_other_alg:
  "(declaredAlg En tok = Some alg \<and> alg \<noteq> ''RS256'' \<longrightarrow>
      snd (verifyIDToken En tok pid s) = record_call (CallVerifyIDToken tok) s \<and>
      (if \<exists>t. ParseUnverified NewParser En tok = Inr t
       then fst (verifyIDToken En tok pid s) = Inl (UnexpectedSigningAlgorithm alg)
       else \<exists>e. fst (verifyIDToken En tok pid s) = Inl (ParsingToken e))) \<and>
   (declaredAlg En tok = Some ''none'' \<and> (\<exists>u. fst (verifyEmulatorToken En tok pid s) = Inr u) \<longrightarrow>
      fst (verifyIDToken En tok pid s) = Inl (UnexpectedSigningAlgorithm ''none''))"
proof -
  have part1:
    "snd (verifyIDToken En tok pid s) = record_call (CallVerifyIDToken tok) s \<and>
      (if \<exists>t. ParseUnverified NewParser En tok = Inr t
       then fst (verifyIDToken En tok pid s) = Inl (UnexpectedSigningAlgorithm alg)
       else \<exists>e. fst (verifyIDToken En tok pid s) = Inl (ParsingToken e))"
    if a: "declaredAlg En tok = Some alg" "alg \<noteq> ''RS256''"
  proof (cases "ParseUnverified NewParser En tok")
    case (Inl e)
    then show ?thesis by (simp add: verifyIDToken_parse_error)
  next
    case (Inr t)
    obtain token parts where t: "t = (token, parts)" by (cases t)
    have m: "Method token = alg"
      using ParseUnverified_declaredAlg [of NewParser En tok token parts] Inr t a by simp
    have ex: "\<exists>t. ParseUnverified NewParser En tok = Inr t"
      using Inr by blast
    have r: "verifyIDToken En tok pid s =
               (Inl (UnexpectedSigningAlgorithm alg), record_call (CallVerifyIDToken tok) s)"
      using verifyIDToken_other_alg [of En tok token parts pid s] Inr t m a by simp
    show ?thesis using ex by (simp add: r)
  qed
  have part2: "fst (verifyIDToken En tok pid s) = Inl (UnexpectedSigningAlgorithm ''none'')"
    if b: "declaredAlg En tok = Some ''none''" "\<exists>u. fst (verifyEmulatorToken En tok pid s) = Inr u"
  proof -
    from b obtain token parts where p: "ParseUnverified NewParser En tok = Inr (token, parts)"
      using verifyEmulatorToken_Inr by blast
    have m: "Method token = ''none''"
      using ParseUnverified_declaredAlg [OF p] b by simp
    show ?thesis
      using verifyIDToken_other_alg [OF p, of pid s] m by simp
  qed
  show ?thesis using part1 part2 by blast
qed

theorem verifyIDToken_rejects_other_alg_witness:
  "declaredAlg demoEnv unsignedToken = Some ''none'' \<and> ''none'' \<noteq> ''RS256'' \<and>
   fst (verifyEmulatorToken demoEnv unsignedToken ''p1'' warmState) =
     Inr \<lparr>UID = ''u1'', uEmail = [], uName = [], uPicture = []\<rparr> \<and>
   fst (verifyIDToken demoEnv unsignedToken ''p1'' warmState) =
     Inl (UnexpectedSigningAlgorithm ''none'') \<and>
   snd (verifyIDToken demoEnv unsignedToken ''p1'' warmState) =
     record_call (CallVerifyIDToken unsignedToken) warmState \<and>
   declaredAlg demoEnv badPayloadToken = Some ''HS256'' \<and> ''HS256'' \<noteq> ''RS256'' \<and>
   ParseUnverified NewParser demoEnv badPayloadToken = Inl [Malformed] \<and>
   verifyIDToken demoEnv badPayloadToken ''p1'' warmState =
     (Inl (ParsingToken [Malformed]), record_call (CallVerifyIDToken badPayloadToken) warmState)"
  using verifyIDToken_rejects_other_alg [of demoEnv unsignedToken "''none''" "''p1''" warmState]
    verifyIDToken_rejects_other_alg [of demoEnv badPayloadToken "''HS256''" "''p1''" warmState]
    declaredAlg_demo verifyEmu_unsigned [of "''p1''" warmState] parse_unsigned [of NewParser]
    parse_badPayload [of NewParser]
  by (simp add: verifyIDToken_parse_error)

text \<open>
  The claim as stated promises the unexpected-signing-algorithm error for every
  token string whose header declares another algorithm. The token below declares HS256
  in a well-formed header, but its payload segment is not base64url, and
  \<^verbatim>\<open>verifyIDToken\<close> returns the parsing error.
\<close>

theorem verifyIDToken_other_alg_counterexample:
  "declaredAlg demoEnv badPayloadToken = Some ''HS256'' \<and> ''HS256'' \<noteq> ''RS256'' \<and>
   fst (verifyIDToken demoEnv badPayloadToken ''p1'' warmState) = Inl (ParsingToken [Malformed]) \<and>
   fst (verifyIDToken demoEnv badPayloadToken ''p1'' warmState) \<noteq>
     Inl (UnexpectedSigningAlgorithm ''HS256'')"
  by (simp add: declaredAlg_demo verifyIDToken_parse_error parse_badPayload)

text \<open>
  C3. \<^verbatim>\<open>verifyEmulatorToken\<close> builds its parser with the valid methods \<^verbatim>\<open>none\<close> and
  \<^verbatim>\<open>RS256\<close>, but \<^verbatim>\<open>ParseUnverified\<close> does not consult them: the HS256 token below, with
  the subject \<^verbatim>\<open>u1\<close>, is accepted.
\<close>

theorem verifyEmulatorToken_accepts_hs256:
  "declaredAlg demoEnv hs256Token = Some ''HS256'' \<and>
   fst (verifyEmulatorToken demoEnv hs256Token ''p1'' freshState) =
     Inr \<lparr>UID = ''u1'', uEmail = [], uName = [], uPicture = []\<rparr>"
  by (simp add: declaredAlg_demo verifyEmu_hs256)

text \<open>
  What does hold of \<^verbatim>\<open>verifyEmulatorToken\<close>: it accepts exactly the token strings that
  the unverified parse accepts with a non-empty subject, whatever the signature check
  of the environment says; an empty subject is rejected (\<open>verifyEmulatorToken_empty_subject\<close>
  above).
\<close>

lemma verifyEmulatorToken_accepts_iff:
  "(\<exists>u. fst (verifyEmulatorToken En tok pid s) = Inr u) \<longleftrightarrow>
   (\<exists>token parts. ParseUnverified NewParser En tok = Inr (token, parts) \<and>
      Subject (Claims token) \<noteq> [])"
  using verifyEmulatorToken_Inr verifyEmulatorToken_ok by blast

lemma ParseUnverified_ignores_MethodVerify:
  "ParseUnverified p (En\<lparr>MethodVerify := v\<rparr>) tok = ParseUnverified p En tok"
  by (auto simp: ParseUnverified_def split: option.splits hval.splits)

lemma verifyEmulatorToken_ignores_signature:
  "verifyEmulatorToken (En\<lparr>MethodVerify := v\<rparr>) tok pid s =
   verifyEmulatorToken En tok pid s"
  by (simp add: verifyEmulatorToken_def ParseUnverified_ignores_MethodVerify)

text \<open>
  C7. A token string that parses, declares RS256 and a key id whose key is in the cache
  when \<^verbatim>\<open>getKey\<close> reads the clock before the cache's expiry, carries a signature that
  verifies under that key, an expiry later than the library's reading of the clock,
  issued-at and not-before dates (when present) not later than that reading, a
  non-empty subject, the issuer of the project and the project among its audience
  values, is accepted by \<^verbatim>\<open>verifyIDToken\<close>. The identity returned carries the subject and
  the three profile claims of the token, each absent profile claim as the empty string.
\<close>

theorem verifyIDToken_accepts_valid:
  assumes split: "splitToken tok = Some (p0, p1, p2)"
    and hdr: "DecodeHeader En p0 = Some h" "h ''alg'' = Some (HString ''RS256'')"
      "h ''kid'' = Some (HString kid)" "kid \<noteq> []"
    and cl: "DecodeClaims En p1 = Some w"
    and cache: "Now En (clockReads s) < expiry (keyCache s)" "keys (keyCache s) kid = Some key"
    and sig: "MethodVerify En ''RS256'' (p0 @ ''.'' @ p1) p2 key"
    and exp: "claim_exp w = Some e" "Now En (Suc (clockReads s)) < e"
    and iat: "\<forall>i. claim_iat w = Some i \<longrightarrow> i \<le> Now En (Suc (clockReads s))"
    and nbf: "\<forall>n. claim_nbf w = Some n \<longrightarrow> n \<le> Now En (Suc (clockReads s))"
    and sub: "claim_sub w = Some sub" "sub \<noteq> []"
    and iss: "claim_iss w = Some (''https://securetoken.google.com/'' @ pid)"
    and aud: "claim_aud w = Some auds" "pid \<in> set auds"
  shows "fst (verifyIDToken En tok pid s) =
           Inr \<lparr>UID = sub,
                uEmail = (case claim_email w of None \<Rightarrow> [] | Some v \<Rightarrow> v),
                uName = (case claim_name w of None \<Rightarrow> [] | Some v \<Rightarrow> v),
                uPicture = (case claim_picture w of None \<Rightarrow> [] | Some v \<Rightarrow> v)\<rparr>"
proof -
  let ?token = "\<lparr>Raw = tok, Method = ''RS256'', Header = h, Claims = bindClaims w,
                  Signature = [], Valid = False\<rparr>"
  let ?s = "record_call (CallVerifyIDToken tok) s"
  let ?s1 = "(record_call (CallGetKey kid) ?s)\<lparr>clockReads := Suc (clockReads s)\<rparr>"
  let ?P = "\<lparr>ValidMethods = Some [''RS256''], SkipClaimsValidation = False\<rparr>"
  have rs: "''RS256'' \<in> set signingMethods" by (simp add: signingMethods_def)
  have parse: "ParseUnverified p En tok = Inr (?token, p0, p1, p2)" for p
    using ParseUnverified_ok [OF split hdr(1) cl hdr(2) rs] .
  have key: "getKey En kid ?s = (Inr key, ?s1)"
    using cache by (simp add: getKey_def time_Now_def record_call_def Let_def)
  have valid: "claimsValid (Now En (Suc (clockReads s))) (bindClaims w) = []"
    using exp iat nbf by (auto simp: claimsValid_def bindClaims_def split: option.splits)
  have pw: "fst (ParseWithClaims ?P En tok (\<lambda>t. key) ?s1) =
              Inr (?token\<lparr>Signature := p2, Valid := True\<rparr>)"
    using sig valid
    by (simp add: ParseWithClaims_def parse Let_def time_Now_def record_call_def)
  obtain r2 s2 where r2: "ParseWithClaims ?P En tok (\<lambda>t. key) ?s1 = (r2, s2)"
    by (cases "ParseWithClaims ?P En tok (\<lambda>t. key) ?s1")
  with pw have r2': "r2 = Inr (?token\<lparr>Signature := p2, Valid := True\<rparr>)" by simp
  show ?thesis
    using hdr(3,4) sub iss aud
    by (simp add: verifyIDToken_def parse key Let_def r2 r2' foundAud_iff toUser_def
        bindClaims_def orEmpty_def)
qed

lemma warm_cache:
  "Now demoEnv (clockReads warmState) < expiry (keyCache warmState)"
  "keys (keyCache warmState) ''k1'' = Some demoKey"
  "Now demoEnv (Suc (clockReads warmState)) < seconds 2000"
  by (simp_all add: demoEnv_sel warmState_def seconds_def)

lemma janeClaims_sel:
  "claim_exp janeClaims = Some (seconds 2000)" "claim_iat janeClaims = Some (seconds 900)"
  "claim_nbf janeClaims = None" "claim_sub janeClaims = Some ''u1''"
  "claim_iss janeClaims = Some (''https://securetoken.google.com/'' @ ''p1'')"
  "claim_aud janeClaims = Some [''p1'']" "claim_email janeClaims = Some ''j@x.io''"
  "claim_name janeClaims = Some ''Jane''" "claim_picture janeClaims = Some ''pic''"
  by (simp_all add: janeClaims_def noClaims_def)

lemma futureIatClaims_sel:
  "claim_exp futureIatClaims = Some (seconds 2000)"
  "claim_iat futureIatClaims = Some (seconds 1500)"
  "claim_nbf futureIatClaims = None" "claim_sub futureIatClaims = Some ''u1''"
  "claim_iss futureIatClaims = Some (''https://securetoken.google.com/'' @ ''p1'')"
  "claim_aud futureIatClaims = Some [''p1'']"
  by (simp_all add: futureIatClaims_def noClaims_def)

theorem verifyIDToken_accepts_valid_witness:
  "splitToken janeToken = Some (rs256HeaderSeg, janeClaimsSeg, ''c2ln'') \<and>
   DecodeHeader demoEnv rs256HeaderSeg = Some rs256Header \<and>
   DecodeClaims demoEnv janeClaimsSeg = Some janeClaims \<and>
   Now demoEnv (clockReads warmState) < expiry (keyCache warmState) \<and>
   keys (keyCache warmState) ''k1'' = Some demoKey \<and>
   MethodVerify demoEnv ''RS256'' (rs256HeaderSeg @ ''.'' @ janeClaimsSeg) ''c2ln'' demoKey \<and>
   claim_iat janeClaims = Some (seconds 900) \<and>
   seconds 900 \<le> Now demoEnv (Suc (clockReads warmState)) \<and>
   claim_nbf janeClaims = None \<and>
   fst (verifyIDToken demoEnv janeToken ''p1'' warmState) =
     Inr \<lparr>UID = ''u1'', uEmail = ''j@x.io'', uName = ''Jane'', uPicture = ''pic''\<rparr>"
proof -
  have dec: "DecodeHeader demoEnv rs256HeaderSeg = Some rs256Header"
      "DecodeClaims demoEnv janeClaimsSeg = Some janeClaims"
    by (simp_all add: demoEnv_sel demoHeader_eval demoClaims_eval)
  have sig: "MethodVerify demoEnv ''RS256'' (rs256HeaderSeg @ ''.'' @ janeClaimsSeg) ''c2ln''
               demoKey"
    by (simp add: demoEnv_sel)
  have dates:
      "\<forall>i. claim_iat janeClaims = Some i \<longrightarrow> i \<le> Now demoEnv (Suc (clockReads warmState))"
      "\<forall>n. claim_nbf janeClaims = Some n \<longrightarrow> n \<le> Now demoEnv (Suc (clockReads warmState))"
      "seconds 900 \<le> Now demoEnv (Suc (clockReads warmState))"
    by (simp_all add: janeClaims_sel demoEnv_sel seconds_def)
  have ne: "''k1'' \<noteq> []" "''u1'' \<noteq> []" "''p1'' \<in> set [''p1'']" by simp_all
  show ?thesis
    using verifyIDToken_accepts_valid [OF splitToken_demo(1) dec(1) header_alg(1,2) ne(1)
        dec(2) warm_cache(1,2) sig janeClaims_sel(1) warm_cache(3) dates(1,2)
        janeClaims_sel(4) ne(2) janeClaims_sel(5,6) ne(3)]
      splitToken_demo(1) dec warm_cache(1,2) sig janeClaims_sel(2,3) dates(3)
    by (simp add: janeClaims_sel(7,8,9))
qed

lemma verifyID_futureIat:
  "fst (verifyIDToken demoEnv futureIatToken ''p1'' warmState) =
     Inl (VerificationFailed [IssuedAtFuture])"
  by (simp add: verifyIDToken_def parse_futureIat Let_def getKey_def time_Now_def
      record_call_def warmState_def demoEnv_sel seconds_def ParseWithClaims_def header_alg
      claimsValid_def bindClaims_def futureIatClaims_def noClaims_def orEmpty_def)

lemma verifyID_jane:
  "fst (verifyIDToken demoEnv janeToken ''p1'' warmState) =
     Inr \<lparr>UID = ''u1'', uEmail = ''j@x.io'', uName = ''Jane'', uPicture = ''pic''\<rparr>"
  by (simp add: verifyIDToken_def parse_jane Let_def getKey_def time_Now_def
      record_call_def warmState_def demoEnv_sel seconds_def ParseWithClaims_def header_alg
      claimsValid_def bindClaims_def janeClaims_def noClaims_def orEmpty_def toUser_def
      foundAud_iff)

text \<open>
  The claim as stated asks only for an expiry in the future. The token below
  meets every condition of that statement (it parses, declares RS256 and the cached key
  id \<^verbatim>\<open>k1\<close>, its signature verifies, its expiry is second 2000 while the clock stands at
  second 1000, its subject, issuer and audience are right), but it was issued at second
  1500, and the library rejects a token used before it was issued.
\<close>

theorem verifyIDToken_future_iat_counterexample:
  "splitToken futureIatToken = Some (rs256HeaderSeg, futureIatClaimsSeg, ''c2ln'') \<and>
   DecodeHeader demoEnv rs256HeaderSeg = Some rs256Header \<and>
   rs256Header ''alg'' = Some (HString ''RS256'') \<and>
   rs256Header ''kid'' = Some (HString ''k1'') \<and>
   DecodeClaims demoEnv futureIatClaimsSeg = Some futureIatClaims \<and>
   Now demoEnv (clockReads warmState) < expiry (keyCache warmState) \<and>
   keys (keyCache warmState) ''k1'' = Some demoKey \<and>
   MethodVerify demoEnv ''RS256'' (rs256HeaderSeg @ ''.'' @ futureIatClaimsSeg) ''c2ln'' demoKey \<and>
   claim_exp futureIatClaims = Some (seconds 2000) \<and>
   Now demoEnv (Suc (clockReads warmState)) < seconds 2000 \<and>
   claim_sub futureIatClaims = Some ''u1'' \<and>
   claim_iss futureIatClaims = Some (''https://securetoken.google.com/'' @ ''p1'') \<and>
   claim_aud futureIatClaims = Some [''p1''] \<and>
   fst (verifyIDToken demoEnv futureIatToken ''p1'' warmState) =
     Inl (VerificationFailed [IssuedAtFuture])"
proof -
  have dec: "DecodeHeader demoEnv rs256HeaderSeg = Some rs256Header"
      "DecodeClaims demoEnv futureIatClaimsSeg = Some futureIatClaims"
    by (simp_all add: demoEnv_sel demoHeader_eval demoClaims_eval)
  have sig: "MethodVerify demoEnv ''RS256'' (rs256HeaderSeg @ ''.'' @ futureIatClaimsSeg)
               ''c2ln'' demoKey"
    by (simp add: demoEnv_sel)
  show ?thesis
    using splitToken_demo(5) dec header_alg(1,2) warm_cache sig futureIatClaims_sel
      verifyID_futureIat
    by simp
qed

section \<open>Properties of the handler of GET /api/me\<close>

lemma apiMe_no_bearer:
  "bearerToken r = None \<Longrightarrow> apiMeHandler cfg En r s = (unauthenticated, s)"
  by (auto simp: apiMeHandler_def bearerToken_def Let_def split: if_splits)

lemma apiMe_bearer:
  "bearerToken r = Some tok \<Longrightarrow>
     apiMeHandler cfg En r s =
       (case (if AuthEmulatorHost cfg \<noteq> [] then verifyEmulatorToken En tok (ProjectID cfg) s
              else verifyIDToken En tok (ProjectID cfg) s) of
          (Inl err, s') \<Rightarrow> (unauthenticated, s')
        | (Inr user, s') \<Rightarrow> (writeJSON 200 (json_userClaims user), s'))"
  by (auto simp: apiMeHandler_def bearerToken_def Let_def split: if_splits prod.splits sum.splits)

lemma bearerToken_None_iff:
  "bearerToken r = None \<longleftrightarrow>
     Header_Get (HeaderFields r) ''Authorization'' = [] \<or>
     \<not> HasPrefix (Header_Get (HeaderFields r) ''Authorization'') ''Bearer ''"
  by (simp add: bearerToken_def Let_def)

lemma bearerToken_only_scheme:
  "Header_Get (HeaderFields r) ''Authorization'' = ''Bearer '' \<Longrightarrow> bearerToken r = Some []"
  by (simp add: bearerToken_def Let_def HasPrefix_def TrimPrefix_def)

lemma bearerToken_bearerRequest: "bearerToken (bearerRequest tok) = Some tok"
  by (simp add: bearerToken_def bearerRequest_def withAuthorization_def Header_Get_def
      HasPrefix_def TrimPrefix_def)

lemma header_withAuthorization:
  "Header_Get (HeaderFields (withAuthorization v)) ''Authorization'' = v"
  by (simp add: withAuthorization_def Header_Get_def)

lemma status_unauthenticated: "Status unauthenticated = 401"
  by (simp add: unauthenticated_def writeError_def writeJSON_def)


lemma apiMe_verifier_calls:
  "verifierCalls (calls_since s (snd (apiMeHandler cfg En r s))) =
     (case bearerToken r of
        None \<Rightarrow> []
      | Some tok \<Rightarrow>
          [if AuthEmulatorHost cfg = [] then CallVerifyIDToken tok
           else CallVerifyEmulatorToken tok])"
proof (cases "bearerToken r")
  case None
  then show ?thesis by (simp add: apiMe_no_bearer calls_since_def verifierCalls_def)
next
  case (Some tok)
  show ?thesis
  proof (cases "AuthEmulatorHost cfg = []")
    case True
    obtain res s' where v: "verifyIDToken En tok (ProjectID cfg) s = (res, s')"
      by (cases "verifyIDToken En tok (ProjectID cfg) s")
    from verifyIDToken_calls [of En tok "ProjectID cfg" s] v obtain evs where
      evs: "calls s' = calls s @ CallVerifyIDToken tok # evs" "verifierCalls evs = []"
      by auto
    have "snd (apiMeHandler cfg En r s) = s'"
      using Some True v by (cases res) (simp_all add: apiMe_bearer)
    then show ?thesis using Some True evs
      by (simp add: verifierCalls_def isVerifierCall_def)
  next
    case False
    obtain res s' where v: "verifyEmulatorToken En tok (ProjectID cfg) s = (res, s')"
      by (cases "verifyEmulatorToken En tok (ProjectID cfg) s")
    have s': "s' = record_call (CallVerifyEmulatorToken tok) s"
      using verifyEmulatorToken_state [of En tok "ProjectID cfg" s] v by simp
    have "snd (apiMeHandler cfg En r s) = s'"
      using Some False v by (cases res) (simp_all add: apiMe_bearer)
    then show ?thesis using Some False s'
      by (simp add: verifierCalls_def isVerifierCall_def record_call_def)
  qed
qed

lemma apiMe_empty_token:
  assumes "Header_Get (HeaderFields r) ''Authorization'' = ''Bearer ''"
  shows "fst (apiMeHandler cfg En r s) = unauthenticated"
  using bearerToken_only_scheme [OF assms]
  by (simp add: apiMe_bearer verifyEmulatorToken_empty verifyIDToken_empty)

lemma HasPrefix_append_iff:
  "length p = length q \<Longrightarrow> HasPrefix (p @ t) q \<longleftrightarrow> p = q"
  by (simp add: HasPrefix_def)

lemma apiMe_other_prefix:
  assumes "length p = 7" "p \<noteq> ''Bearer ''"
  shows "apiMeHandler cfg En (withAuthorization (p @ tok)) s = (unauthenticated, s)"
proof -
  have "\<not> HasPrefix (p @ tok) ''Bearer ''"
    using assms HasPrefix_append_iff [of p "''Bearer ''" tok] by simp
  then have "bearerToken (withAuthorization (p @ tok)) = None"
    by (simp add: bearerToken_None_iff header_withAuthorization)
  then show ?thesis by (rule apiMe_no_bearer)
qed

lemma apiMe_200:
  assumes "Status (fst (apiMeHandler cfg En r s)) = 200"
  shows "\<exists>tok token parts. bearerToken r = Some tok \<and>
           ParseUnverified NewParser En tok = Inr (token, parts) \<and>
           Subject (Claims token) \<noteq> [] \<and>
           fst (apiMeHandler cfg En r s) = writeJSON 200 (json_userClaims (toUser (Claims token)))"
proof (cases "bearerToken r")
  case None
  then show ?thesis using assms by (simp add: apiMe_no_bearer status_unauthenticated)
next
  case (Some tok)
  show ?thesis
  proof (cases "AuthEmulatorHost cfg = []")
    case True
    obtain res s' where v: "verifyIDToken En tok (ProjectID cfg) s = (res, s')"
      by (cases "verifyIDToken En tok (ProjectID cfg) s")
    obtain u where u: "res = Inr u"
      using assms Some True v by (cases res) (auto simp: apiMe_bearer status_unauthenticated)
    have "fst (verifyIDToken En tok (ProjectID cfg) s) = Inr u" using v u by simp
    from verifyIDToken_Inr [OF this] obtain token parts where
      "ParseUnverified NewParser En tok = Inr (token, parts)"
      "Subject (Claims token) \<noteq> []" "u = toUser (Claims token)"
      by blast
    moreover have "fst (apiMeHandler cfg En r s) = writeJSON 200 (json_userClaims u)"
      using Some True v u by (simp add: apiMe_bearer)
    ultimately show ?thesis using Some by blast
  next
    case False
    obtain res s' where v: "verifyEmulatorToken En tok (ProjectID cfg) s = (res, s')"
      by (cases "verifyEmulatorToken En tok (ProjectID cfg) s")
    obtain u where u: "res = Inr u"
      using assms Some False v by (cases res) (auto simp: apiMe_bearer status_unauthenticated)
    have "fst (verifyEmulatorToken En tok (ProjectID cfg) s) = Inr u" using v u by simp
    from verifyEmulatorToken_Inr [OF this] obtain token parts where
      "ParseUnverified NewParser En tok = Inr (token, parts)"
      "Subject (Claims token) \<noteq> []" "u = toUser (Claims token)"
      by blast
    moreover have "fst (apiMeHandler cfg En r s) = writeJSON 200 (json_userClaims u)"
      using Some False v u by (simp add: apiMe_bearer)
    ultimately show ?thesis using Some by blast
  qed
qed

subsection \<open>Evaluation on the concrete requests\<close>

lemma apiMe_prod_unsigned:
  "apiMeHandler prodCfg demoEnv (bearerRequest unsignedToken) warmState =
     (unauthenticated, record_call (CallVerifyIDToken unsignedToken) warmState)"
  by (simp add: apiMe_bearer bearerToken_bearerRequest prodCfg_def verifyID_unsigned)

lemma apiMe_prod_jane:
  "fst (apiMeHandler prodCfg demoEnv (bearerRequest janeToken) warmState) =
     writeJSON 200 (json_userClaims
       \<lparr>UID = ''u1'', uEmail = ''j@x.io'', uName = ''Jane'', uPicture = ''pic''\<rparr>)"
proof -
  obtain res s' where v: "verifyIDToken demoEnv janeToken ''p1'' warmState = (res, s')"
    by (cases "verifyIDToken demoEnv janeToken ''p1'' warmState")
  then have "res = Inr \<lparr>UID = ''u1'', uEmail = ''j@x.io'', uName = ''Jane'', uPicture = ''pic''\<rparr>"
    using verifyID_jane by simp
  then show ?thesis using v
    by (simp add: apiMe_bearer bearerToken_bearerRequest prodCfg_def)
qed

lemma apiMe_emu_unsigned:
  "fst (apiMeHandler emuCfg demoEnv (bearerRequest unsignedToken) freshState) =
     writeJSON 200 (json_userClaims \<lparr>UID = ''u1'', uEmail = [], uName = [], uPicture = []\<rparr>)"
proof -
  obtain res s' where v: "verifyEmulatorToken demoEnv unsignedToken ''p1'' freshState = (res, s')"
    by (cases "verifyEmulatorToken demoEnv unsignedToken ''p1'' freshState")
  then have "res = Inr \<lparr>UID = ''u1'', uEmail = [], uName = [], uPicture = []\<rparr>"
    using verifyEmu_unsigned [of "''p1''" freshState] by simp
  then show ?thesis using v
    by (simp add: apiMe_bearer bearerToken_bearerRequest prodCfg_def emuCfg_def)
qed

subsection \<open>Which verifier the handler invokes\<close>

text \<open>
  C1. The verifier calls that the handler makes for a request are none, when the request
  carries no bearer token, and otherwise the single call of the verifier selected by
  the configuration alone: \<^verbatim>\<open>verifyIDToken\<close> when the emulator host is empty,
  \<^verbatim>\<open>verifyEmulatorToken\<close> when it is not. With an empty emulator host no call of
  \<^verbatim>\<open>verifyEmulatorToken\<close> is made, whatever the request, the environment and the state.
\<close>

theorem apiMe_verifier_fixed_by_config:
  "verifierCalls (calls_since s (snd (apiMeHandler cfg En r s))) =
     (case bearerToken r of
        None \<Rightarrow> []
      | Some tok \<Rightarrow>
          [if AuthEmulatorHost cfg = [] then CallVerifyIDToken tok
           else CallVerifyEmulatorToken tok]) \<and>
   (AuthEmulatorHost cfg = [] \<longrightarrow>
      (\<forall>tok. CallVerifyEmulatorToken tok \<notin> set (calls_since s (snd (apiMeHandler cfg En r s)))))"
proof -
  let ?evs = "calls_since s (snd (apiMeHandler cfg En r s))"
  have eq: "verifierCalls ?evs =
     (case bearerToken r of
        None \<Rightarrow> []
      | Some tok \<Rightarrow>
          [if AuthEmulatorHost cfg = [] then CallVerifyIDToken tok
           else CallVerifyEmulatorToken tok])"
    by (rule apiMe_verifier_calls)
  have "CallVerifyEmulatorToken tok \<notin> set ?evs" if prod: "AuthEmulatorHost cfg = []" for tok
  proof
    assume "CallVerifyEmulatorToken tok \<in> set ?evs"
    then have "CallVerifyEmulatorToken tok \<in> set (verifierCalls ?evs)"
      by (simp add: verifierCalls_def isVerifierCall_def)
    then show False using prod
      by (simp add: eq split: option.splits)
  qed
  with eq show ?thesis by blast
qed

theorem apiMe_verifier_fixed_by_config_witness:
  "AuthEmulatorHost prodCfg = [] \<and>
   bearerToken (bearerRequest unsignedToken) = Some unsignedToken \<and>
   calls_since warmState
     (snd (apiMeHandler prodCfg demoEnv (bearerRequest unsignedToken) warmState))
     = [CallVerifyIDToken unsignedToken] \<and>
   CallVerifyEmulatorToken unsignedToken \<notin> set (calls_since warmState
     (snd (apiMeHandler prodCfg demoEnv (bearerRequest unsignedToken) warmState))) \<and>
   fst (apiMeHandler prodCfg demoEnv (bearerRequest unsignedToken) warmState) = unauthenticated"
proof -
  have h: "AuthEmulatorHost prodCfg = []" by (simp add: prodCfg_def)
  have c: "calls_since warmState
     (snd (apiMeHandler prodCfg demoEnv (bearerRequest unsignedToken) warmState))
     = [CallVerifyIDToken unsignedToken]"
    unfolding apiMe_prod_unsigned by (simp add: record_call_def)
  have f: "fst (apiMeHandler prodCfg demoEnv (bearerRequest unsignedToken) warmState) =
             unauthenticated"
    by (simp add: apiMe_prod_unsigned)
  show ?thesis
    using h c f bearerToken_bearerRequest [of unsignedToken]
      apiMe_verifier_fixed_by_config [of warmState prodCfg demoEnv "bearerRequest unsignedToken"]
    by simp
qed

subsection \<open>Requests without a bearer token\<close>








text \<open>
  The condition on the end of the value matters only for a handler that is called in
  process: given the value \<^verbatim>\<open>"Bearer "\<close> itself, the prefix check passes, and the verifier
  selected by the configuration is called with the empty token string and rejects it.
\<close>

lemma apiMe_untrimmed_bearer:
  "calls_since freshState
     (snd (apiMeHandler prodCfg demoEnv (withAuthorization ''Bearer '') freshState)) =
     [CallVerifyIDToken []] \<and>
   calls_since freshState
     (snd (apiMeHandler emuCfg demoEnv (withAuthorization ''Bearer '') freshState)) =
     [CallVerifyEmulatorToken []] \<and>
   fst (apiMeHandler prodCfg demoEnv (withAuthorization ''Bearer '') freshState) = unauthenticated"
proof -
  have t: "bearerToken (withAuthorization ''Bearer '') = Some []"
    by (simp add: bearerToken_only_scheme header_withAuthorization)
  show ?thesis
    by (simp add: apiMe_bearer t verifyIDToken_empty verifyEmulatorToken_empty prodCfg_def
        emuCfg_def calls_since_def record_call_def freshState_def)
qed

subsection \<open>The body of a successful response\<close>

text \<open>
  C9. A response of the handler with status 200 has as its body the JSON object with
  exactly the members \<^verbatim>\<open>uid\<close>, \<^verbatim>\<open>email\<close>, \<^verbatim>\<open>name\<close> and \<^verbatim>\<open>picture\<close>, in this order, each a
  string: the subject and the three profile claims of the payload of the bearer token,
  an absent claim giving the empty string. This holds for every configuration.
\<close>

theorem apiMe_success_body:
  "Status (fst (apiMeHandler cfg En r s)) = 200 \<longrightarrow>
     (\<exists>tok p0 p1 p2 w.
        bearerToken r = Some tok \<and> splitToken tok = Some (p0, p1, p2) \<and>
        DecodeClaims En p1 = Some w \<and>
        ResponseBody (fst (apiMeHandler cfg En r s)) =
          JObject [(''uid'', JString (case claim_sub w of None \<Rightarrow> [] | Some v \<Rightarrow> v)),
                   (''email'', JString (case claim_email w of None \<Rightarrow> [] | Some v \<Rightarrow> v)),
                   (''name'', JString (case claim_name w of None \<Rightarrow> [] | Some v \<Rightarrow> v)),
                   (''picture'', JString (case claim_picture w of None \<Rightarrow> [] | Some v \<Rightarrow> v))])"
proof
  assume "Status (fst (apiMeHandler cfg En r s)) = 200"
  from apiMe_200 [OF this] obtain tok token parts where
    t: "bearerToken r = Some tok" "ParseUnverified NewParser En tok = Inr (token, parts)"
       "fst (apiMeHandler cfg En r s) = writeJSON 200 (json_userClaims (toUser (Claims token)))"
    by blast
  obtain p0 p1 p2 where parts: "parts = (p0, p1, p2)" by (cases parts)
  from ParseUnverified_Inr [OF t(2) [unfolded parts]] obtain w where
    w: "splitToken tok = Some (p0, p1, p2)" "DecodeClaims En p1 = Some w"
       "Claims token = bindClaims w"
    by (metis Token.select_convs(4))
  show "\<exists>tok p0 p1 p2 w.
        bearerToken r = Some tok \<and> splitToken tok = Some (p0, p1, p2) \<and>
        DecodeClaims En p1 = Some w \<and>
        ResponseBody (fst (apiMeHandler cfg En r s)) =
          JObject [(''uid'', JString (case claim_sub w of None \<Rightarrow> [] | Some v \<Rightarrow> v)),
                   (''email'', JString (case claim_email w of None \<Rightarrow> [] | Some v \<Rightarrow> v)),
                   (''name'', JString (case claim_name w of None \<Rightarrow> [] | Some v \<Rightarrow> v)),
                   (''picture'', JString (case claim_picture w of None \<Rightarrow> [] | Some v \<Rightarrow> v))]"
    using t(1) w
    by (simp add: t(3) writeJSON_def json_userClaims_def toUser_def bindClaims_def orEmpty_def)
qed

theorem apiMe_success_body_witness:
  "Status (fst (apiMeHandler emuCfg demoEnv (bearerRequest unsignedToken) freshState)) = 200 \<and>
   ResponseBody (fst (apiMeHandler emuCfg demoEnv (bearerRequest unsignedToken) freshState)) =
     JObject [(''uid'', JString ''u1''), (''email'', JString []), (''name'', JString []),
              (''picture'', JString [])] \<and>
   Status (fst (apiMeHandler prodCfg demoEnv (bearerRequest janeToken) warmState)) = 200 \<and>
   ResponseBody (fst (apiMeHandler prodCfg demoEnv (bearerRequest janeToken) warmState)) =
     JObject [(''uid'', JString ''u1''), (''email'', JString ''j@x.io''),
              (''name'', JString ''Jane''), (''picture'', JString ''pic'')]"
  using apiMe_success_body [of emuCfg demoEnv "bearerRequest unsignedToken" freshState]
    apiMe_success_body [of prodCfg demoEnv "bearerRequest janeToken" warmState]
  by (simp add: apiMe_emu_unsigned apiMe_prod_jane writeJSON_def json_userClaims_def)

subsection \<open>The bearer prefix\<close>

text \<open>
  C10. The handler invokes a verifier exactly when the \<^verbatim>\<open>Authorization\<close> field starts
  with the seven bytes \<^verbatim>\<open>"Bearer "\<close>. A field whose first seven bytes are anything else,
  such as \<^verbatim>\<open>"bearer "\<close> or \<^verbatim>\<open>"BEARER "\<close>, gets the UNAUTHENTICATED response with the state
  left as it was, whatever token follows.
\<close>

theorem apiMe_bearer_case_sensitive:
  "(verifierCalls (calls_since s (snd (apiMeHandler cfg En r s))) \<noteq> [] \<longleftrightarrow>
      HasPrefix (Header_Get (HeaderFields r) ''Authorization'') ''Bearer '') \<and>
   (\<not> HasPrefix (Header_Get (HeaderFields r) ''Authorization'') ''Bearer '' \<longrightarrow>
      apiMeHandler cfg En r s = (unauthenticated, s)) \<and>
   (length p = 7 \<and> p \<noteq> ''Bearer '' \<longrightarrow>
      apiMeHandler cfg En (withAuthorization (p @ tok)) s = (unauthenticated, s)) \<and>
   apiMeHandler cfg En (withAuthorization (''bearer '' @ tok)) s = (unauthenticated, s) \<and>
   apiMeHandler cfg En (withAuthorization (''BEARER '' @ tok)) s = (unauthenticated, s)"
proof -
  let ?h = "Header_Get (HeaderFields r) ''Authorization''"
  have e: "?h = [] \<Longrightarrow> \<not> HasPrefix ?h ''Bearer ''"
    by (simp add: HasPrefix_def)
  have a: "verifierCalls (calls_since s (snd (apiMeHandler cfg En r s))) \<noteq> [] \<longleftrightarrow>
           HasPrefix ?h ''Bearer ''"
  proof (cases "bearerToken r")
    case None
    then have "\<not> HasPrefix ?h ''Bearer ''"
      using e bearerToken_None_iff [of r] by blast
    then show ?thesis using None by (simp add: apiMe_verifier_calls)
  next
    case (Some tok)
    then have "HasPrefix ?h ''Bearer ''"
      using bearerToken_None_iff [of r] by auto
    then show ?thesis using Some by (simp add: apiMe_verifier_calls)
  qed
  have b: "\<not> HasPrefix ?h ''Bearer '' \<longrightarrow> apiMeHandler cfg En r s = (unauthenticated, s)"
    by (simp add: apiMe_no_bearer bearerToken_None_iff)
  have c: "length p = 7 \<and> p \<noteq> ''Bearer '' \<longrightarrow>
      apiMeHandler cfg En (withAuthorization (p @ tok)) s = (unauthenticated, s)"
    using apiMe_other_prefix by blast
  have d: "apiMeHandler cfg En (withAuthorization (''bearer '' @ tok)) s = (unauthenticated, s)"
    by (rule apiMe_other_prefix) simp_all
  have f: "apiMeHandler cfg En (withAuthorization (''BEARER '' @ tok)) s = (unauthenticated, s)"
    by (rule apiMe_other_prefix) simp_all
  show ?thesis using a b c d f by blast
qed

theorem apiMe_bearer_case_sensitive_witness:
  "length ''bEARER '' = 7 \<and> ''bEARER '' \<noteq> ''Bearer '' \<and>
   \<not> HasPrefix (Header_Get (HeaderFields (withAuthorization (''bearer '' @ janeToken)))
        ''Authorization'') ''Bearer '' \<and>
   apiMeHandler prodCfg demoEnv (withAuthorization (''bEARER '' @ janeToken)) warmState =
     (unauthenticated, warmState) \<and>
   apiMeHandler prodCfg demoEnv (withAuthorization (''bearer '' @ janeToken)) warmState =
     (unauthenticated, warmState) \<and>
   apiMeHandler prodCfg demoEnv (withAuthorization (''BEARER '' @ janeToken)) warmState =
     (unauthenticated, warmState) \<and>
   Status (fst (apiMeHandler prodCfg demoEnv (bearerRequest janeToken) warmState)) = 200"
proof -
  have a: "\<not> HasPrefix (Header_Get (HeaderFields (withAuthorization (''bearer '' @ janeToken)))
             ''Authorization'') ''Bearer ''"
    by (simp add: header_withAuthorization HasPrefix_def)
  have b: "Status (fst (apiMeHandler prodCfg demoEnv (bearerRequest janeToken) warmState)) = 200"
    by (simp add: apiMe_prod_jane writeJSON_def)
  have c: "length ''bEARER '' = 7 \<and> ''bEARER '' \<noteq> ''Bearer ''" by simp
  from apiMe_bearer_case_sensitive [of warmState prodCfg demoEnv
        "withAuthorization (''bearer '' @ janeToken)" "''bEARER ''" janeToken]
  have d: "apiMeHandler prodCfg demoEnv (withAuthorization (''bEARER '' @ janeToken)) warmState =
             (unauthenticated, warmState) \<and>
           apiMeHandler prodCfg demoEnv (withAuthorization (''bearer '' @ janeToken)) warmState =
             (unauthenticated, warmState) \<and>
           apiMeHandler prodCfg demoEnv (withAuthorization (''BEARER '' @ janeToken)) warmState =
             (unauthenticated, warmState)"
    using c by blast
  show ?thesis using a b c d by blast
qed

section \<open>Concurrent callers of getKey\<close>

text \<open>One caller alone, run to completion, does what \<^verbatim>\<open>getKey\<close> does.\<close>

lemma run_append:
  "run En (a @ b) sys =
     (case run En a sys of None \<Rightarrow> None | Some sys' \<Rightarrow> run En b sys')"
  by (induction a arbitrary: sys) (auto split: option.splits)

lemma single_caller:
  "\<exists>n. run En (replicate n 0) (callers s [kid]) =
         Some \<lparr>shared = snd (getKey En kid s), readers = 0, writer = False,
               threads = [\<lparr>tpc = Done (fst (getKey En kid s)), tkid = kid\<rparr>]\<rparr>"
proof -
  let ?s = "record_call (CallGetKey kid) s"
  let ?s1 = "?s\<lparr>clockReads := Suc (clockReads s)\<rparr>"
  show ?thesis
  proof (cases "Now En (clockReads s) < expiry (keyCache s)")
    case True
    have "run En (replicate 2 0) (callers s [kid]) =
         Some \<lparr>shared = snd (getKey En kid s), readers = 0, writer = False,
               threads = [\<lparr>tpc = Done (fst (getKey En kid s)), tkid = kid\<rparr>]\<rparr>"
      using True
      by (simp add: numeral_2_eq_2 callers_def step_def setThread_def getKey_def time_Now_def
          record_call_def Let_def lookupKey_def split: option.splits)
    then show ?thesis by blast
  next
    case False
    let ?s2 = "(record_call CallRefresh ?s1)\<lparr>clockReads := Suc (Suc (clockReads s))\<rparr>"
    show ?thesis
    proof (cases "Now En (Suc (clockReads s)) < expiry (keyCache s)")
      case True
      have "run En (replicate 6 0) (callers s [kid]) =
         Some \<lparr>shared = snd (getKey En kid s), readers = 0, writer = False,
               threads = [\<lparr>tpc = Done (fst (getKey En kid s)), tkid = kid\<rparr>]\<rparr>"
        using False True
        by (simp add: eval_nat_numeral callers_def step_def setThread_def getKey_def refresh_def
            time_Now_def record_call_def Let_def lookupKey_def split: option.splits)
      then show ?thesis by blast
    next
      case F2: False
      obtain r s3 where f: "fetchAndStore En ?s2 = (r, s3)" by (cases "fetchAndStore En ?s2")
      show ?thesis
      proof (cases r)
        case None
        have "run En (replicate 7 0) (callers s [kid]) =
         Some \<lparr>shared = snd (getKey En kid s), readers = 0, writer = False,
               threads = [\<lparr>tpc = Done (fst (getKey En kid s)), tkid = kid\<rparr>]\<rparr>"
          using False F2 f None
          by (simp add: eval_nat_numeral callers_def step_def setThread_def getKey_def refresh_def
            time_Now_def record_call_def Let_def lookupKey_def split: option.splits)
        then show ?thesis by blast
      next
        case (Some e)
        have "run En (replicate 5 0) (callers s [kid]) =
         Some \<lparr>shared = snd (getKey En kid s), readers = 0, writer = False,
               threads = [\<lparr>tpc = Done (fst (getKey En kid s)), tkid = kid\<rparr>]\<rparr>"
          using False F2 f Some
          by (simp add: eval_nat_numeral callers_def step_def setThread_def getKey_def refresh_def
            time_Now_def record_call_def Let_def lookupKey_def split: option.splits)
        then show ?thesis by blast
      qed
    qed
  qed
qed

lemma filter_update_length:
  "i < length xs \<Longrightarrow>
     length (filter P (xs[i := y])) + (if P (xs ! i) then 1 else 0) =
     length (filter P xs) + (if P y then 1 else 0)"
proof (induction xs arbitrary: i)
  case Nil
  then show ?case by simp
next
  case (Cons x xs)
  show ?case
  proof (cases i)
    case 0
    then show ?thesis by simp
  next
    case (Suc k)
    with Cons.prems have "k < length xs" by simp
    from Cons.IH [OF this] show ?thesis using Suc by simp
  qed
qed

lemma list_all_update: "list_all P xs \<Longrightarrow> P y \<Longrightarrow> list_all P (xs[i := y])"
  by (induction xs arbitrary: i) (auto split: nat.splits)

lemma critical_setThread:
  "i < length (threads sys) \<Longrightarrow>
     critical (setThread i p sys) + (if inRefresh (threads sys ! i) then 1 else 0) =
     critical sys + (if p = Locked \<or> p = Fetching then 1 else 0)"
  using filter_update_length [of i "threads sys" inRefresh "(threads sys ! i)\<lparr>tpc := p\<rparr>"]
  by (simp add: critical_def setThread_def inRefresh_def)

lemma readers_setThread:
  "i < length (threads sys) \<Longrightarrow>
     length (filter holdsRead (threads (setThread i p sys))) +
       (if holdsRead (threads sys ! i) then 1 else 0) =
     length (filter holdsRead (threads sys)) + (if p = Reading \<or> p = ReadingAgain then 1 else 0)"
  using filter_update_length [of i "threads sys" holdsRead "(threads sys ! i)\<lparr>tpc := p\<rparr>"]
  by (simp add: setThread_def holdsRead_def)

lemma setThread_sel [simp]:
  "shared (setThread i p sys) = shared sys"
  "readers (setThread i p sys) = readers sys"
  "writer (setThread i p sys) = writer sys"
  "length (threads (setThread i p sys)) = length (threads sys)"
  by (simp_all add: setThread_def)

lemma critical_upd [simp]:
  "critical (sys\<lparr>shared := s\<rparr>) = critical sys"
  "critical (sys\<lparr>readers := n\<rparr>) = critical sys"
  "critical (sys\<lparr>writer := b\<rparr>) = critical sys"
  by (simp_all add: critical_def)

lemma setThread_upd [simp]:
  "threads (setThread i p (sys\<lparr>shared := s\<rparr>)) = threads (setThread i p sys)"
  "threads (setThread i p (sys\<lparr>readers := n\<rparr>)) = threads (setThread i p sys)"
  "threads (setThread i p (sys\<lparr>writer := b\<rparr>)) = threads (setThread i p sys)"
  by (simp_all add: setThread_def)

lemma step_lockInv:
  assumes inv: "lockInv sys" and st: "step En i sys = Some sys'"
  shows "lockInv sys'"
proof -
  have i: "i < length (threads sys)"
    using st by (auto simp: step_def split: if_splits)
  note c = critical_setThread [OF i, unfolded critical_def] and r = readers_setThread [OF i]
  show ?thesis
  proof (cases "tpc (threads sys ! i)")
    case Start
    then show ?thesis using inv st i c [of Reading] r [of Reading]
      by (auto simp: step_def lockInv_def critical_def Let_def inRefresh_def holdsRead_def
          split: if_splits)
  next
    case Reading
    then show ?thesis using inv st i
        c [of WantRefresh] r [of WantRefresh]
        c [of "Done (lookupKey (snd (time_Now En (shared sys))) (tkid (threads sys ! i))
                 (KeyNotFound (tkid (threads sys ! i))))"]
        r [of "Done (lookupKey (snd (time_Now En (shared sys))) (tkid (threads sys ! i))
                 (KeyNotFound (tkid (threads sys ! i))))"]
      by (auto simp: step_def lockInv_def critical_def Let_def inRefresh_def holdsRead_def
          split: if_splits prod.splits)
  next
    case WantRefresh
    then show ?thesis using inv st i c [of Locked] r [of Locked]
      by (auto simp: step_def lockInv_def critical_def Let_def inRefresh_def holdsRead_def
          split: if_splits)
  next
    case Locked
    then show ?thesis using inv st i c [of Refreshed] r [of Refreshed]
        c [of Fetching] r [of Fetching]
      by (auto simp: step_def lockInv_def critical_def Let_def inRefresh_def holdsRead_def
          split: if_splits prod.splits)
  next
    case Fetching
    obtain e s2 where f: "fetchAndStore En (shared sys) = (e, s2)"
      by (cases "fetchAndStore En (shared sys)")
    show ?thesis
    proof (cases e)
      case None
      then show ?thesis using Fetching f inv st i c [of Refreshed] r [of Refreshed]
        by (auto simp: step_def lockInv_def critical_def Let_def inRefresh_def holdsRead_def
            split: if_splits)
    next
      case (Some err)
      then show ?thesis using Fetching f inv st i
          c [of "Done (Inl (RefreshFailed err))"] r [of "Done (Inl (RefreshFailed err))"]
        by (auto simp: step_def lockInv_def critical_def Let_def inRefresh_def holdsRead_def
            split: if_splits)
    qed
  next
    case Refreshed
    then show ?thesis using inv st i c [of ReadingAgain] r [of ReadingAgain]
      by (auto simp: step_def lockInv_def critical_def Let_def inRefresh_def holdsRead_def
          split: if_splits)
  next
    case ReadingAgain
    then show ?thesis using inv st i
        c [of "Done (lookupKey (shared sys) (tkid (threads sys ! i))
                 (KeyNotFoundAfterRefresh (tkid (threads sys ! i))))"]
        r [of "Done (lookupKey (shared sys) (tkid (threads sys ! i))
                 (KeyNotFoundAfterRefresh (tkid (threads sys ! i))))"]
      by (auto simp: step_def lockInv_def critical_def Let_def inRefresh_def holdsRead_def
          split: if_splits)
  next
    case (Done x)
    then show ?thesis using st by (simp add: step_def split: if_splits)
  qed
qed

lemma fetchAndStore_ok:
  assumes "HttpGet En (fetches s) = Response 200 cc (Some b)"
    "UnmarshalCertMap En b = Some certMap" "certKeys En certMap Map.empty = Inr ks"
  shows "fetchAndStore En s =
           (None, s\<lparr>fetches := Suc (fetches s), clockReads := Suc (clockReads s),
                    keyCache := \<lparr>keys = ks,
                      expiry = Now En (clockReads s) + secondsDuration (maxAgeOf cc)\<rparr>\<rparr>)"
  using assms by (simp add: fetchAndStore_def http_Get_def time_Now_def Let_def)

lemma no_critical_notFetching:
  "critical sys = 0 \<Longrightarrow> list_all notFetching (threads sys)"
  by (auto simp: critical_def list_all_iff notFetching_def inRefresh_def filter_empty_conv)

lemma threads_setThread:
  "threads (setThread i p sys) = (threads sys)[i := (threads sys ! i)\<lparr>tpc := p\<rparr>]"
  by (simp add: setThread_def)

lemma fetchAndStore_clockReads: "clockReads s \<le> clockReads (snd (fetchAndStore En s))"
  by (simp add: fetchAndStore_def http_Get_def time_Now_def Let_def
      split: http_result.splits option.splits sum.splits)

lemma step_clockReads:
  assumes "step En i sys = Some sys'"
  shows "clockReads (shared sys) \<le> clockReads (shared sys')"
proof (cases "tpc (threads sys ! i)")
  case Fetching
  obtain e s2 where f: "fetchAndStore En (shared sys) = (e, s2)"
    by (cases "fetchAndStore En (shared sys)")
  then have "clockReads (shared sys) \<le> clockReads s2"
    using fetchAndStore_clockReads [of "shared sys" En] by simp
  then show ?thesis using assms Fetching f
    by (cases e) (auto simp: step_def Let_def split: if_splits)
qed (use assms in \<open>auto simp: step_def Let_def time_Now_def record_call_def split: if_splits\<close>)

lemma step_reads:
  assumes "step En i sys = Some sys'"
    and "tpc (threads sys ! i) = Reading \<or> tpc (threads sys ! i) = Locked"
  shows "clockReads (shared sys') = Suc (clockReads (shared sys))"
  using assms by (auto simp: step_def Let_def time_Now_def split: if_splits)

lemma run_clockReads:
  "run En sched sys = Some sys' \<Longrightarrow> clockReads (shared sys) \<le> clockReads (shared sys')"
proof (induction sched arbitrary: sys)
  case Nil
  then show ?case by simp
next
  case (Cons i sched)
  from Cons.prems obtain sys1 where
    s1: "step En i sys = Some sys1" "run En sched sys1 = Some sys'"
    by (auto split: option.splits)
  show ?case using step_clockReads [OF s1(1)] Cons.IH [OF s1(2)] by simp
qed

lemma firstFetchReading_ge:
  "firstFetchReading En sched sys = Some j \<Longrightarrow> clockReads (shared sys) \<le> j"
proof (induction sched arbitrary: sys)
  case Nil
  then show ?case by simp
next
  case (Cons i sched)
  show ?case
  proof (cases "i < length (threads sys) \<and> tpc (threads sys ! i) = Fetching")
    case True
    then show ?thesis using Cons.prems by simp
  next
    case False
    then obtain sys1 where
      s1: "step En i sys = Some sys1" "firstFetchReading En sched sys1 = Some j"
      using Cons.prems by (auto split: option.splits)
    show ?thesis using step_clockReads [OF s1(1)] Cons.IH [OF s1(2)] by simp
  qed
qed

lemma step_beforeFetch:
  assumes inv: "beforeFetch f0 c0 sys"
    and st: "step En i sys = Some sys'"
    and nf: "tpc (threads sys ! i) \<noteq> Fetching"
    and expired: "tpc (threads sys ! i) = Reading \<or> tpc (threads sys ! i) = Locked \<Longrightarrow>
                    \<not> Now En (clockReads (shared sys)) < expiry c0"
  shows "beforeFetch f0 c0 sys'"
proof -
  have i: "i < length (threads sys)"
    using st by (auto simp: step_def split: if_splits)
  have a: "fetches (shared sys) = f0" "keyCache (shared sys) = c0" "list_all early (threads sys)"
    using inv by (auto simp: beforeFetch_def)
  have upd_early: "list_all early (threads (setThread i p sys))"
    if "p = Start \<or> p = Reading \<or> p = WantRefresh \<or> p = Locked \<or> p = Fetching" for p
    using that a(3) by (auto simp: threads_setThread early_def intro!: list_all_update)
  have ti: "early (threads sys ! i)"
    using i a(3) by (simp add: list_all_length)
  show ?thesis
  proof (cases "tpc (threads sys ! i)")
    case Start
    then show ?thesis using a st i upd_early [of Reading]
      by (auto simp: step_def beforeFetch_def Let_def record_call_def split: if_splits)
  next
    case Reading
    then show ?thesis using a st i expired upd_early [of WantRefresh]
      by (auto simp: step_def beforeFetch_def Let_def time_Now_def split: if_splits)
  next
    case WantRefresh
    then show ?thesis using a st i upd_early [of Locked]
      by (auto simp: step_def beforeFetch_def Let_def record_call_def split: if_splits)
  next
    case Locked
    then show ?thesis using a st i expired upd_early [of Fetching]
      by (auto simp: step_def beforeFetch_def Let_def time_Now_def split: if_splits)
  next
    case Fetching
    then show ?thesis using nf by simp
  next
    case Refreshed
    then show ?thesis using ti by (simp add: early_def)
  next
    case ReadingAgain
    then show ?thesis using ti by (simp add: early_def)
  next
    case (Done x)
    then show ?thesis using ti by (simp add: early_def)
  qed
qed

lemma step_fetch:
  assumes ok: "HttpGet En f0 = Response 200 cc (Some b)" "UnmarshalCertMap En b = Some certMap"
      "certKeys En certMap Map.empty = Inr ks"
    and d: "d = secondsDuration (maxAgeOf cc)"
    and linv: "lockInv sys" and inv: "beforeFetch f0 c0 sys"
    and st: "step En i sys = Some sys'"
    and fe: "tpc (threads sys ! i) = Fetching"
  shows "afterFetch En f0 ks d (clockReads (shared sys)) sys'"
proof -
  have i: "i < length (threads sys)"
    using st by (auto simp: step_def split: if_splits)
  have a: "fetches (shared sys) = f0"
    using inv by (simp add: beforeFetch_def)
  have f: "fetchAndStore En (shared sys) =
         (None, (shared sys)\<lparr>fetches := Suc f0, clockReads := Suc (clockReads (shared sys)),
                  keyCache := \<lparr>keys = ks,
                    expiry = Now En (clockReads (shared sys)) + d\<rparr>\<rparr>)"
    using fetchAndStore_ok [of En "shared sys" cc b certMap ks] ok a d by simp
  have sys': "sys' = setThread i Refreshed (sys\<lparr>shared := (shared sys)\<lparr>fetches := Suc f0,
                  clockReads := Suc (clockReads (shared sys)),
                  keyCache := \<lparr>keys = ks,
                    expiry = Now En (clockReads (shared sys)) + d\<rparr>\<rparr>, writer := False\<rparr>)"
    using st i fe f by (simp add: step_def Let_def)
  have "inRefresh (threads sys ! i)" using fe by (simp add: inRefresh_def)
  then have "threads sys ! i \<in> set (filter inRefresh (threads sys))"
    using i by simp
  then have "critical sys \<noteq> 0"
    unfolding critical_def by (metis length_0_conv empty_iff set_empty)
  then have "critical sys = 1"
    using linv by (auto simp: lockInv_def split: if_splits)
  then have "critical (setThread i Refreshed sys) = 0"
    using critical_setThread [OF i, of Refreshed] \<open>inRefresh (threads sys ! i)\<close> by simp
  then have "list_all notFetching (threads (setThread i Refreshed sys))"
    by (rule no_critical_notFetching)
  then show ?thesis
    by (simp add: sys' afterFetch_def)
qed

lemma step_afterFetch:
  assumes inv: "afterFetch En f0 ks d j sys"
    and st: "step En i sys = Some sys'"
    and fresh: "tpc (threads sys ! i) = Locked \<Longrightarrow>
                  Now En (clockReads (shared sys)) < Now En j + d"
  shows "afterFetch En f0 ks d j sys'"
proof -
  have i: "i < length (threads sys)"
    using st by (auto simp: step_def split: if_splits)
  have a: "fetches (shared sys) = Suc f0"
    "keyCache (shared sys) = \<lparr>keys = ks, expiry = Now En j + d\<rparr>"
    "j < clockReads (shared sys)" "list_all notFetching (threads sys)"
    using inv by (auto simp: afterFetch_def)
  have upd_nf: "list_all notFetching (threads (setThread i p sys))" if "p \<noteq> Fetching" for p
    using that a(4) by (auto simp: threads_setThread notFetching_def intro!: list_all_update)
  have ti: "notFetching (threads sys ! i)"
    using i a(4) by (simp add: list_all_length)
  show ?thesis
  proof (cases "tpc (threads sys ! i)")
    case Start
    then show ?thesis using a st i upd_nf [of Reading]
      by (auto simp: step_def afterFetch_def Let_def record_call_def split: if_splits)
  next
    case Reading
    then show ?thesis using a st i upd_nf
      by (auto simp: step_def afterFetch_def Let_def time_Now_def split: if_splits)
  next
    case WantRefresh
    then show ?thesis using a st i upd_nf [of Locked]
      by (auto simp: step_def afterFetch_def Let_def record_call_def split: if_splits)
  next
    case Locked
    have "Now En (clockReads (shared sys)) < expiry (keyCache (shared sys))"
      using a(2) fresh [OF Locked] by simp
    then show ?thesis using Locked a st i upd_nf [of Refreshed]
      by (auto simp: step_def afterFetch_def Let_def time_Now_def split: if_splits)
  next
    case Fetching
    then show ?thesis using ti by (simp add: notFetching_def)
  next
    case Refreshed
    then show ?thesis using a st i upd_nf [of ReadingAgain]
      by (auto simp: step_def afterFetch_def Let_def split: if_splits)
  next
    case ReadingAgain
    then show ?thesis using a st i upd_nf
      by (auto simp: step_def afterFetch_def Let_def split: if_splits)
  next
    case (Done x)
    then show ?thesis using st by (simp add: step_def split: if_splits)
  qed
qed

lemma step_length:
  "step En i sys = Some sys' \<Longrightarrow> length (threads sys') = length (threads sys)"
  by (auto simp: step_def Let_def split: if_splits pc.splits prod.splits option.splits)

lemma run_length:
  "run En sched sys = Some sys' \<Longrightarrow> length (threads sys') = length (threads sys)"
proof (induction sched arbitrary: sys)
  case Nil
  then show ?case by simp
next
  case (Cons i sched)
  then show ?case by (auto split: option.splits dest: step_length)
qed

lemma run_lockInv: "lockInv sys \<Longrightarrow> run En sched sys = Some sys' \<Longrightarrow> lockInv sys'"
proof (induction sched arbitrary: sys)
  case Nil
  then show ?case by simp
next
  case (Cons i sched)
  then show ?case by (auto split: option.splits dest: step_lockInv)
qed

lemma run_afterFetch:
  "afterFetch En f0 ks d j sys \<Longrightarrow> run En sched sys = Some sys' \<Longrightarrow>
     (\<forall>k. j < k \<and> k < clockReads (shared sys') \<longrightarrow> Now En k < Now En j + d) \<Longrightarrow>
     afterFetch En f0 ks d j sys'"
proof (induction sched arbitrary: sys)
  case Nil
  then show ?case by simp
next
  case (Cons i sched)
  from Cons.prems(2) obtain sys1 where
    s1: "step En i sys = Some sys1" "run En sched sys1 = Some sys'"
    by (auto split: option.splits)
  have j: "j < clockReads (shared sys)"
    using Cons.prems(1) by (simp add: afterFetch_def)
  have "Now En (clockReads (shared sys)) < Now En j + d" if l: "tpc (threads sys ! i) = Locked"
  proof -
    have "clockReads (shared sys1) = Suc (clockReads (shared sys))"
      using step_reads [OF s1(1)] l by simp
    then have "clockReads (shared sys) < clockReads (shared sys')"
      using run_clockReads [OF s1(2)] by simp
    then show ?thesis using j Cons.prems(3) by blast
  qed
  then have "afterFetch En f0 ks d j sys1"
    using step_afterFetch [OF Cons.prems(1) s1(1)] by blast
  then show ?case using Cons.IH s1(2) Cons.prems(3) by blast
qed

lemma run_beforeFetch:
  assumes ok: "HttpGet En f0 = Response 200 cc (Some b)" "UnmarshalCertMap En b = Some certMap"
      "certKeys En certMap Map.empty = Inr ks"
    and d: "d = secondsDuration (maxAgeOf cc)"
  shows "lockInv sys \<Longrightarrow> beforeFetch f0 c0 sys \<Longrightarrow> run En sched sys = Some sys' \<Longrightarrow>
     (\<forall>k. clockReads (shared sys) \<le> k \<and>
          k < (case firstFetchReading En sched sys of
                 None \<Rightarrow> clockReads (shared sys') | Some j \<Rightarrow> j) \<longrightarrow>
          \<not> Now En k < expiry c0) \<Longrightarrow>
     (\<forall>j k. firstFetchReading En sched sys = Some j \<and> j < k \<and> k < clockReads (shared sys') \<longrightarrow>
          Now En k < Now En j + d) \<Longrightarrow>
     beforeFetch f0 c0 sys' \<or>
     (\<exists>j. firstFetchReading En sched sys = Some j \<and> afterFetch En f0 ks d j sys')"
proof (induction sched arbitrary: sys)
  case Nil
  then show ?case by simp
next
  case (Cons i sched)
  from Cons.prems(3) obtain sys1 where
    s1: "step En i sys = Some sys1" "run En sched sys1 = Some sys'"
    by (auto split: option.splits)
  have i: "i < length (threads sys)"
    using s1(1) by (auto simp: step_def split: if_splits)
  have l1: "lockInv sys1" using Cons.prems(1) s1(1) by (rule step_lockInv)
  show ?case
  proof (cases "tpc (threads sys ! i) = Fetching")
    case True
    let ?j = "clockReads (shared sys)"
    have ff: "firstFetchReading En (i # sched) sys = Some ?j"
      using True i by simp
    have af: "afterFetch En f0 ks d ?j sys1"
      using step_fetch [OF ok d Cons.prems(1,2) s1(1) True] .
    have "\<forall>k. ?j < k \<and> k < clockReads (shared sys') \<longrightarrow> Now En k < Now En ?j + d"
      using Cons.prems(5) ff by blast
    then have "afterFetch En f0 ks d ?j sys'"
      using run_afterFetch [OF af s1(2)] by blast
    then show ?thesis using ff by blast
  next
    case False
    have ff: "firstFetchReading En (i # sched) sys = firstFetchReading En sched sys1"
      using False s1(1) by simp
    have mono: "clockReads (shared sys) \<le> clockReads (shared sys1)"
      using s1(1) by (rule step_clockReads)
    have "\<not> Now En (clockReads (shared sys)) < expiry c0"
      if r: "tpc (threads sys ! i) = Reading \<or> tpc (threads sys ! i) = Locked"
    proof -
      have n: "clockReads (shared sys1) = Suc (clockReads (shared sys))"
        using step_reads [OF s1(1) r] .
      have "clockReads (shared sys) <
              (case firstFetchReading En sched sys1 of
                 None \<Rightarrow> clockReads (shared sys') | Some j \<Rightarrow> j)"
      proof (cases "firstFetchReading En sched sys1")
        case None
        then show ?thesis using n run_clockReads [OF s1(2)] by simp
      next
        case (Some j)
        then show ?thesis using n firstFetchReading_ge [OF Some] by simp
      qed
      then show ?thesis using Cons.prems(4) ff by simp
    qed
    then have b1: "beforeFetch f0 c0 sys1"
      using step_beforeFetch [OF Cons.prems(2) s1(1) False] by blast
    have e1: "\<forall>k. clockReads (shared sys1) \<le> k \<and>
          k < (case firstFetchReading En sched sys1 of
                 None \<Rightarrow> clockReads (shared sys') | Some j \<Rightarrow> j) \<longrightarrow>
          \<not> Now En k < expiry c0"
      using Cons.prems(4) ff mono by auto
    have f1: "\<forall>j k. firstFetchReading En sched sys1 = Some j \<and> j < k \<and>
          k < clockReads (shared sys') \<longrightarrow> Now En k < Now En j + d"
      using Cons.prems(5) ff by simp
    show ?thesis using Cons.IH [OF l1 b1 s1(2) e1 f1] ff by simp
  qed
qed

lemma callers_lockInv: "lockInv (callers s kids)"
  by (simp add: lockInv_def critical_def callers_def inRefresh_def holdsRead_def filter_empty_conv
      comp_def)

lemma callers_beforeFetch: "beforeFetch (fetches s) (keyCache s) (callers s kids)"
  by (simp add: beforeFetch_def callers_def list_all_iff early_def)

lemma fetchAndStore_demo:
  "fetchAndStore demoEnv s =
     (None, s\<lparr>fetches := Suc (fetches s), clockReads := Suc (clockReads s),
              keyCache := \<lparr>keys = [''k1'' \<mapsto> demoKey], expiry = seconds 1100\<rparr>\<rparr>)"
  by (simp add: fetchAndStore_def demoEnv_def http_Get_def time_Now_def Let_def maxAgeOf_demo
      secondsDuration_def wrap64_def seconds_def)

lemma fetchAndStore_down:
  "fetchAndStore downEnv s = (Some (BadStatus 503), s\<lparr>fetches := Suc (fetches s)\<rparr>)"
  by (simp add: fetchAndStore_def downEnv_def demoEnv_def http_Get_def Let_def)

lemma Now_down: "Now downEnv k = seconds 1000"
  by (simp add: downEnv_def demoEnv_def)

lemma Now_late:
  "Now lateEnv k =
     (if k < 2 then seconds 1000 else if k < 5 then seconds 3000
      else seconds (5000 + int (k - 5)))"
  by (simp add: lateEnv_def)

lemma fetchAndStore_late:
  "fetchAndStore lateEnv s =
     (None, s\<lparr>fetches := Suc (fetches s), clockReads := Suc (clockReads s),
              keyCache := \<lparr>keys = [''k1'' \<mapsto> demoKey],
                           expiry = Now lateEnv (clockReads s) + seconds 100\<rparr>\<rparr>)"
  by (simp add: fetchAndStore_def lateEnv_def demoEnv_def http_Get_def time_Now_def Let_def
      maxAgeOf_demo secondsDuration_def wrap64_def seconds_def)

lemma refresh_late_stale: "refresh lateEnv staleState = (None, refilledState)"
  by (simp add: refresh_def fetchAndStore_late time_Now_def record_call_def Let_def Now_late
      staleState_def refilledState_def seconds_def)

lemma run_race_demo:
  "map_option outcome (run demoEnv raceSchedule twoCallers) =
     Some (1, [Done (Inr demoKey), Done (Inl (KeyNotFoundAfterRefresh ''k2''))])"
  by (simp add: raceSchedule_def twoCallers_def callers_def staleState_def
      step_def setThread_def Let_def time_Now_def record_call_def demoEnv_sel
      fetchAndStore_demo lookupKey_def seconds_def outcome_def)

lemma run_race:
  "run lateEnv raceSchedule (callers refilledState [''k1'', ''k2'']) = Some raceFinal"
  by (simp add: raceSchedule_def raceFinal_def callers_def refilledState_def
      step_def setThread_def Let_def time_Now_def record_call_def Now_late
      fetchAndStore_late lookupKey_def seconds_def)

lemma firstFetchReading_race:
  "firstFetchReading lateEnv raceSchedule (callers refilledState [''k1'', ''k2'']) = Some 5"
  by (simp add: raceSchedule_def callers_def refilledState_def
      step_def setThread_def Let_def time_Now_def record_call_def Now_late seconds_def)

lemma run_fail:
  "map_option outcome (run downEnv failSchedule twoCallers) =
     Some (2, [Done (Inl (RefreshFailed (BadStatus 503))),
               Done (Inl (RefreshFailed (BadStatus 503)))])"
  by (simp add: failSchedule_def twoCallers_def callers_def staleState_def
      step_def setThread_def Let_def time_Now_def record_call_def Now_down
      fetchAndStore_down lookupKey_def seconds_def outcome_def)

text \<open>
  Whatever the environment, the callers can all return: run one after the other, each
  finds the locks free.
\<close>

lemma caller_finishes:
  assumes i: "i < length (threads sys)" and st: "tpc (threads sys ! i) = Start"
    and free: "locksFree sys"
  shows "\<exists>n sys'. run En (replicate n i) sys = Some sys' \<and> locksFree sys' \<and>
           (\<exists>r. threads sys' = (threads sys)[i := (threads sys ! i)\<lparr>tpc := Done r\<rparr>])"
proof -
  let ?s = "record_call (CallGetKey (tkid (threads sys ! i))) (shared sys)"
  let ?s1 = "?s\<lparr>clockReads := Suc (clockReads (shared sys))\<rparr>"
  let ?s2 = "(record_call CallRefresh ?s1)\<lparr>clockReads := Suc (Suc (clockReads (shared sys)))\<rparr>"
  note defs = step_def setThread_def time_Now_def record_call_def Let_def locksFree_def
  show ?thesis
  proof (cases "Now En (clockReads (shared sys)) < expiry (keyCache (shared sys))")
    case True
    have "\<exists>sys'. run En (replicate 2 i) sys = Some sys' \<and> locksFree sys' \<and>
           (\<exists>r. threads sys' = (threads sys)[i := (threads sys ! i)\<lparr>tpc := Done r\<rparr>])"
      using True i st free by (simp add: numeral_2_eq_2 defs) blast
    then show ?thesis by blast
  next
    case False
    show ?thesis
    proof (cases "Now En (Suc (clockReads (shared sys))) < expiry (keyCache (shared sys))")
      case True
      have "\<exists>sys'. run En (replicate 6 i) sys = Some sys' \<and> locksFree sys' \<and>
           (\<exists>r. threads sys' = (threads sys)[i := (threads sys ! i)\<lparr>tpc := Done r\<rparr>])"
        using False True i st free by (simp add: eval_nat_numeral defs) blast
      then show ?thesis by blast
    next
      case F2: False
      obtain r s3 where f: "fetchAndStore En ?s2 = (r, s3)" by (cases "fetchAndStore En ?s2")
      show ?thesis
      proof (cases r)
        case None
        have "\<exists>sys'. run En (replicate 7 i) sys = Some sys' \<and> locksFree sys' \<and>
           (\<exists>r. threads sys' = (threads sys)[i := (threads sys ! i)\<lparr>tpc := Done r\<rparr>])"
          using False F2 f None i st free by (simp add: eval_nat_numeral defs) blast
        then show ?thesis by blast
      next
        case (Some e)
        have "\<exists>sys'. run En (replicate 5 i) sys = Some sys' \<and> locksFree sys' \<and>
           (\<exists>r. threads sys' = (threads sys)[i := (threads sys ! i)\<lparr>tpc := Done r\<rparr>])"
          using False F2 f Some i st free by (simp add: eval_nat_numeral defs) blast
        then show ?thesis by blast
      qed
    qed
  qed
qed

lemma callers_finish_prefix:
  assumes "k \<le> length kids"
  shows "\<exists>sched sys. run En sched (callers s kids) = Some sys \<and> locksFree sys \<and>
           length (threads sys) = length kids \<and>
           (\<forall>j < k. isDone (threads sys ! j)) \<and>
           (\<forall>j. k \<le> j \<and> j < length kids \<longrightarrow> tpc (threads sys ! j) = Start)"
  using assms
proof (induction k)
  case 0
  have "run En [] (callers s kids) = Some (callers s kids)" by simp
  moreover have "locksFree (callers s kids)" by (simp add: locksFree_def callers_def)
  moreover have "length (threads (callers s kids)) = length kids" by (simp add: callers_def)
  moreover have "\<forall>j. j < length kids \<longrightarrow> tpc (threads (callers s kids) ! j) = Start"
    by (simp add: callers_def)
  ultimately show ?case by (metis le0 not_less_zero)
next
  case (Suc k)
  then obtain sched sys where
    r: "run En sched (callers s kids) = Some sys" "locksFree sys"
       "length (threads sys) = length kids"
       "\<forall>j < k. isDone (threads sys ! j)"
       "\<forall>j. k \<le> j \<and> j < length kids \<longrightarrow> tpc (threads sys ! j) = Start"
    by (metis Suc_leD)
  have k: "k < length (threads sys)" "tpc (threads sys ! k) = Start"
    using Suc.prems r(3,5) by auto
  from caller_finishes [OF k r(2), of En] obtain n sys' res where
    f: "run En (replicate n k) sys = Some sys'" "locksFree sys'"
       "threads sys' = (threads sys)[k := (threads sys ! k)\<lparr>tpc := Done res\<rparr>]"
    by blast
  have "run En (sched @ replicate n k) (callers s kids) = Some sys'"
    using r(1) f(1) by (simp add: run_append)
  moreover have "length (threads sys') = length kids" using f(3) r(3) by simp
  moreover have "isDone (threads sys' ! j)" if "j < Suc k" for j
  proof (cases "j = k")
    case True
    then show ?thesis using f(3) k(1) by (simp add: isDone_def)
  next
    case False
    then have "j < k" using that by simp
    then show ?thesis using f(3) r(4) False by simp
  qed
  moreover have "tpc (threads sys' ! j) = Start" if "Suc k \<le> j \<and> j < length kids" for j
    using that f(3) r(5) by simp
  ultimately show ?case using f(2) by blast
qed

lemma callers_can_finish:
  "\<exists>sched sys. run En sched (callers s kids) = Some sys \<and> list_all isDone (threads sys)"
proof -
  from callers_finish_prefix [of "length kids" kids En s] obtain sched sys where
    r: "run En sched (callers s kids) = Some sys" "length (threads sys) = length kids"
       "\<forall>j < length kids. isDone (threads sys ! j)"
    by auto
  then have "list_all isDone (threads sys)" by (simp add: list_all_length)
  with r(1) show ?thesis by blast
qed

text \<open>
  C8. In every state that callers racing for the cache can reach, at most one caller is
  inside \<^verbatim>\<open>refresh\<close> (between taking and releasing the write lock). If moreover the cache
  is expired at every reading of the clock that the callers take before the first fetch,
  the first fetch succeeds, and the expiry it sets is later than every reading of the
  clock that the callers take after it, then at most one fetch is issued, and exactly
  one once all callers (at least one) have returned; by \<open>callers_can_finish\<close> there are
  schedules in which they all do. After that one fetch the cache holds the fetched keys
  and the expiry computed from the reading of the clock that the fetch took. Nothing is
  asked of the readings taken before the race, nor of how long the fetch lasts.
\<close>

theorem callers_one_fetch:
  assumes run: "run En sched (callers s0 kids) = Some sys"
  shows "critical sys \<le> 1 \<and>
     ((\<forall>k. clockReads s0 \<le> k \<and>
           k < (case firstFetchReading En sched (callers s0 kids) of
                  None \<Rightarrow> clockReads (shared sys) | Some j \<Rightarrow> j) \<longrightarrow>
           \<not> Now En k < expiry (keyCache s0)) \<and>
      HttpGet En (fetches s0) = Response 200 cc (Some b) \<and>
      UnmarshalCertMap En b = Some certMap \<and>
      certKeys En certMap Map.empty = Inr ks \<and>
      (\<forall>j k. firstFetchReading En sched (callers s0 kids) = Some j \<and> j < k \<and>
             k < clockReads (shared sys) \<longrightarrow>
             Now En k < Now En j + secondsDuration (maxAgeOf cc)) \<longrightarrow>
        fetches (shared sys) \<le> Suc (fetches s0) \<and>
        (kids \<noteq> [] \<and> list_all isDone (threads sys) \<longrightarrow>
           fetches (shared sys) = Suc (fetches s0)) \<and>
        (fetches (shared sys) = Suc (fetches s0) \<longrightarrow>
           (\<exists>j. firstFetchReading En sched (callers s0 kids) = Some j \<and>
                keyCache (shared sys) =
                  \<lparr>keys = ks, expiry = Now En j + secondsDuration (maxAgeOf cc)\<rparr>)))"
proof -
  have l: "lockInv sys" using callers_lockInv run by (rule run_lockInv)
  then have c: "critical sys \<le> 1" by (simp add: lockInv_def split: if_splits)
  have p: "fetches (shared sys) \<le> Suc (fetches s0) \<and>
        (kids \<noteq> [] \<and> list_all isDone (threads sys) \<longrightarrow>
           fetches (shared sys) = Suc (fetches s0)) \<and>
        (fetches (shared sys) = Suc (fetches s0) \<longrightarrow>
           (\<exists>j. firstFetchReading En sched (callers s0 kids) = Some j \<and>
                keyCache (shared sys) =
                  \<lparr>keys = ks, expiry = Now En j + secondsDuration (maxAgeOf cc)\<rparr>))"
    if h: "\<forall>k. clockReads s0 \<le> k \<and>
           k < (case firstFetchReading En sched (callers s0 kids) of
                  None \<Rightarrow> clockReads (shared sys) | Some j \<Rightarrow> j) \<longrightarrow>
           \<not> Now En k < expiry (keyCache s0)"
      "HttpGet En (fetches s0) = Response 200 cc (Some b)"
      "UnmarshalCertMap En b = Some certMap"
      "certKeys En certMap Map.empty = Inr ks"
      "\<forall>j k. firstFetchReading En sched (callers s0 kids) = Some j \<and> j < k \<and>
             k < clockReads (shared sys) \<longrightarrow>
             Now En k < Now En j + secondsDuration (maxAgeOf cc)"
  proof -
    have e: "\<forall>k. clockReads (shared (callers s0 kids)) \<le> k \<and>
           k < (case firstFetchReading En sched (callers s0 kids) of
                  None \<Rightarrow> clockReads (shared sys) | Some j \<Rightarrow> j) \<longrightarrow>
           \<not> Now En k < expiry (keyCache s0)"
      using h(1) by (simp add: callers_def)
    have ph: "beforeFetch (fetches s0) (keyCache s0) sys \<or>
        (\<exists>j. firstFetchReading En sched (callers s0 kids) = Some j \<and>
             afterFetch En (fetches s0) ks (secondsDuration (maxAgeOf cc)) j sys)"
      using run_beforeFetch [OF h(2,3,4) refl callers_lockInv callers_beforeFetch run e h(5)] .
    have len: "length (threads sys) = length kids"
      using run_length [OF run] by (simp add: callers_def)
    have "\<not> list_all early (threads sys)" if "kids \<noteq> []" "list_all isDone (threads sys)"
    proof
      assume e: "list_all early (threads sys)"
      from that(1) len obtain t where t: "t \<in> set (threads sys)"
        by (cases "threads sys") auto
      then have "early t" "isDone t" using e that(2) by (auto simp: list_all_iff)
      then show False by (auto simp: early_def isDone_def split: pc.splits)
    qed
    then show ?thesis using ph by (auto simp: beforeFetch_def afterFetch_def)
  qed
  show ?thesis using c p by blast
qed

theorem callers_one_fetch_witness:
  "refresh lateEnv staleState = (None, refilledState) \<and>
   run lateEnv raceSchedule (callers refilledState [''k1'', ''k2'']) = Some raceFinal \<and>
   firstFetchReading lateEnv raceSchedule (callers refilledState [''k1'', ''k2'']) = Some 5 \<and>
   clockReads refilledState = 2 \<and> clockReads (shared raceFinal) = 7 \<and>
   expiry (keyCache refilledState) = seconds 1100 \<and>
   Now lateEnv 2 = seconds 3000 \<and> Now lateEnv 3 = seconds 3000 \<and> Now lateEnv 4 = seconds 3000 \<and>
   Now lateEnv 5 = seconds 5000 \<and> Now lateEnv 6 = seconds 5001 \<and>
   secondsDuration (maxAgeOf ''public, max-age=100'') = seconds 100 \<and>
   HttpGet lateEnv (fetches refilledState) = Response 200 ''public, max-age=100'' (Some ''certs'') \<and>
   UnmarshalCertMap lateEnv ''certs'' = Some [(''k1'', ''pem1'')] \<and>
   certKeys lateEnv [(''k1'', ''pem1'')] Map.empty = Inr [''k1'' \<mapsto> demoKey] \<and>
   list_all isDone (threads raceFinal) \<and>
   critical raceFinal \<le> 1 \<and>
   fetches (shared raceFinal) = Suc (fetches refilledState) \<and>
   keyCache (shared raceFinal) = \<lparr>keys = [''k1'' \<mapsto> demoKey], expiry = seconds 5100\<rparr>"
proof -
  note r = run_race
  note ff = firstFetchReading_race
  have x: "secondsDuration (maxAgeOf ''public, max-age=100'') = seconds 100"
    by (simp add: maxAgeOf_demo secondsDuration_def wrap64_def seconds_def)
  have c0: "clockReads refilledState = 2" "expiry (keyCache refilledState) = seconds 1100"
    by (simp_all add: refilledState_def)
  have c1: "clockReads (shared raceFinal) = 7"
    by (simp add: raceFinal_def)
  have n: "Now lateEnv 2 = seconds 3000" "Now lateEnv 3 = seconds 3000"
    "Now lateEnv 4 = seconds 3000" "Now lateEnv 5 = seconds 5000" "Now lateEnv 6 = seconds 5001"
    by (simp_all add: Now_late)
  have e: "\<forall>k. clockReads refilledState \<le> k \<and>
           k < (case firstFetchReading lateEnv raceSchedule (callers refilledState [''k1'', ''k2'']) of
                  None \<Rightarrow> clockReads (shared raceFinal) | Some j \<Rightarrow> j) \<longrightarrow>
           \<not> Now lateEnv k < expiry (keyCache refilledState)"
    by (simp add: ff c0 Now_late seconds_def)
  have g: "HttpGet lateEnv (fetches refilledState) =
             Response 200 ''public, max-age=100'' (Some ''certs'')"
    by (simp add: lateEnv_def demoEnv_def)
  have u: "UnmarshalCertMap lateEnv ''certs'' = Some [(''k1'', ''pem1'')]"
    by (simp add: lateEnv_def demoEnv_def)
  have k: "certKeys lateEnv [(''k1'', ''pem1'')] Map.empty = Inr [''k1'' \<mapsto> demoKey]"
    by (simp add: lateEnv_def demoEnv_def)
  have f: "\<forall>j k. firstFetchReading lateEnv raceSchedule (callers refilledState [''k1'', ''k2'']) =
                   Some j \<and> j < k \<and> k < clockReads (shared raceFinal) \<longrightarrow>
             Now lateEnv k < Now lateEnv j + secondsDuration (maxAgeOf ''public, max-age=100'')"
  proof (intro allI impI)
    fix j k
    assume "firstFetchReading lateEnv raceSchedule (callers refilledState [''k1'', ''k2'']) =
              Some j \<and> j < k \<and> k < clockReads (shared raceFinal)"
    then have "j = 5" "k = 6" using ff c1 by auto
    then show "Now lateEnv k < Now lateEnv j + secondsDuration (maxAgeOf ''public, max-age=100'')"
      by (simp add: x n seconds_def)
  qed
  have d: "list_all isDone (threads raceFinal)"
    by (simp add: raceFinal_def isDone_def)
  have kc: "keyCache (shared raceFinal) = \<lparr>keys = [''k1'' \<mapsto> demoKey], expiry = seconds 5100\<rparr>"
    by (simp add: raceFinal_def)
  have ne: "[''k1'', ''k2''] \<noteq> []" by simp
  from callers_one_fetch [OF r, of "''public, max-age=100''" "''certs''"
        "[(''k1'', ''pem1'')]" "[''k1'' \<mapsto> demoKey]"] e g u k f d ne
  have "critical raceFinal \<le> 1 \<and> fetches (shared raceFinal) = Suc (fetches refilledState)"
    by blast
  then show ?thesis
    using refresh_late_stale r ff c0 c1 n x g u k d kc by simp
qed

text \<open>
  The claim as stated promises one fetch for every race. Against the endpoint that
  answers 503 each of the two callers, having seen the cache expired, takes the write
  lock in turn, finds the cache still expired and issues its own fetch: two fetches.
\<close>

theorem callers_failed_fetch_counterexample:
  "\<not> Now downEnv 0 < expiry (keyCache staleState) \<and>
   map_option outcome (run downEnv failSchedule twoCallers) =
     Some (2, [Done (Inl (RefreshFailed (BadStatus 503))),
               Done (Inl (RefreshFailed (BadStatus 503)))])"
  by (simp add: run_fail Now_down staleState_def seconds_def)

end
